theory Spec2Isabelle
  imports Main
begin

section \<open>JavaScript strings and the primitives the binding uses\<close>

text \<open>
  A JavaScript string is a sequence of UTF-16 code units. A code unit is modelled by its
  number, a string by the list of its code units; the regular expressions of the source
  have no \<open>u\<close> flag, so they work on code units as well. \<open>ascii\<close> writes a
  literal of the source.
\<close>

type_synonym jschar = nat
type_synonym jsstring = "jschar list"

definition ascii :: "string \<Rightarrow> jsstring" where
  "ascii s = map of_char s"

abbreviation NUL :: jschar where "NUL \<equiv> 0"
abbreviation DOT :: jschar where "DOT \<equiv> 46"
abbreviation HASH :: jschar where "HASH \<equiv> 35"

datatype error = TypeError | SessionError

text \<open>\<open>String(x)\<close> for a value that is a string or \<open>undefined\<close>, as string
  concatenation and template literals apply it.\<close>

definition js_str :: "jsstring option \<Rightarrow> jsstring" where
  "js_str x = (case x of None \<Rightarrow> ascii ''undefined'' | Some s \<Rightarrow> s)"

text \<open>The character class \<open>\s\<close> of ECMAScript (WhiteSpace and LineTerminator), and the
  class \<open>.\<close> without the \<open>s\<close> flag, which excludes the four line terminators.\<close>

definition JS_WHITESPACE :: "jschar list" where
  "JS_WHITESPACE =
     [0x09, 0x0A, 0x0B, 0x0C, 0x0D, 0x20, 0xA0, 0x1680,
      0x2000, 0x2001, 0x2002, 0x2003, 0x2004, 0x2005, 0x2006, 0x2007, 0x2008, 0x2009, 0x200A,
      0x2028, 0x2029, 0x202F, 0x205F, 0x3000, 0xFEFF]"

definition regex_space :: "jschar \<Rightarrow> bool" where
  "regex_space c = (c \<in> set JS_WHITESPACE)"

definition regex_any :: "jschar \<Rightarrow> bool" where
  "regex_any c = (c \<notin> {0x0A, 0x0D, 0x2028, 0x2029})"

text \<open>\<open>Number.prototype.toString\<close> on an integer: exact for the safe integers of
  JavaScript, which is where an \<open>int\<close> models a \<open>number\<close>.\<close>

fun decimal :: "nat \<Rightarrow> jsstring" where
  "decimal n = (if n < 10 then [48 + n] else decimal (n div 10) @ [48 + n mod 10])"

declare decimal.simps [simp del]

definition number_toString :: "int \<Rightarrow> jsstring" where
  "number_toString i = (if i < 0 then 45 # decimal (nat (- i)) else decimal (nat i))"

definition MAX_SAFE_INTEGER :: int where
  "MAX_SAFE_INTEGER = 2 ^ 53 - 1"

definition padStart :: "nat \<Rightarrow> jschar \<Rightarrow> jsstring \<Rightarrow> jsstring" where
  "padStart n fill s = replicate (n - length s) fill @ s"

text \<open>\<open>parseInt(s, 10)\<close>: leading white space and a sign are skipped, the longest run of
  decimal digits is read, and no digit at all gives \<open>NaN\<close>, here \<open>None\<close>.\<close>

definition is_digit :: "jschar \<Rightarrow> bool" where
  "is_digit c = (48 \<le> c \<and> c \<le> 57)"

definition parseInt :: "jsstring \<Rightarrow> int option" where
  "parseInt input =
     (let s = dropWhile regex_space input;
          sign = (if take 1 s = [45] then - 1 else 1);
          s = (if take 1 s = [43] \<or> take 1 s = [45] then drop 1 s else s);
          z = takeWhile is_digit s
      in if z = [] then None
         else Some (sign * int (foldl (\<lambda>acc c. acc * 10 + (c - 48)) 0 z)))"

text \<open>\<open>String.prototype.split\<close> with a separator of one code unit.\<close>

fun js_split :: "jschar \<Rightarrow> jsstring \<Rightarrow> jsstring list" where
  "js_split sep [] = [[]]"
| "js_split sep (c # cs) =
     (if c = sep then [] # js_split sep cs
      else (case js_split sep cs of [] \<Rightarrow> [[c]] | x # xs \<Rightarrow> (c # x) # xs))"

text \<open>Array destructuring: a missing element is \<open>undefined\<close>.\<close>

definition nth_opt :: "'a list \<Rightarrow> nat \<Rightarrow> 'a option" where
  "nth_opt xs i = (if i < length xs then Some (xs ! i) else None)"

text \<open>\<open>new Map(pairs).get(k)\<close>: a later pair with the same key replaces an earlier one.\<close>

definition Map_get :: "('k \<times> 'v) list \<Rightarrow> 'k \<Rightarrow> 'v option" where
  "Map_get pairs k = map_of (rev pairs) k"

section \<open>The topic codec (wamp-topic.ts)\<close>

text \<open>
  Modelled from the spec: the enumeration \<open>CommunicationEventType\<close> belongs to the package
  @coaty/core, which is not part of the sources. The codec only compares its numeric values
  with the two markers \<open>OneWay\<close> and \<open>TwoWay\<close>: the one-way kinds (Advertise, Deadvertise,
  Channel, Associate, IoValue) lie between the markers, the two-way kinds after \<open>TwoWay\<close>.
\<close>

datatype CommunicationEventType =
    Raw
  | OneWay | Advertise | Deadvertise | Channel | Associate | IoValue
  | TwoWay | Discover | Resolve | Query | Retrieve | Update | Complete | Call | Return

fun event_code :: "CommunicationEventType \<Rightarrow> nat" where
  "event_code Raw = 0"
| "event_code OneWay = 1"
| "event_code Advertise = 2"
| "event_code Deadvertise = 3"
| "event_code Channel = 4"
| "event_code Associate = 5"
| "event_code IoValue = 6"
| "event_code TwoWay = 7"
| "event_code Discover = 8"
| "event_code Resolve = 9"
| "event_code Query = 10"
| "event_code Retrieve = 11"
| "event_code Update = 12"
| "event_code Complete = 13"
| "event_code Call = 14"
| "event_code Return = 15"

definition PROTOCOL_NAME :: jsstring where
  "PROTOCOL_NAME = ascii ''coaty''"

definition PROTOCOL_NAME_PREFIX :: jsstring where
  "PROTOCOL_NAME_PREFIX = PROTOCOL_NAME @ [DOT]"

definition WHITESPACE_CHARS :: jsstring where
  "WHITESPACE_CHARS =
     [0x20, 0x0C, 0x0A, 0x0D, 0x09, 0x0B, 0xA0, 0x1680,
      0x2000, 0x2001, 0x2002, 0x2003, 0x2004, 0x2005, 0x2006, 0x2007, 0x2008, 0x2009, 0x200A,
      0x2028, 0x2029, 0x202F, 0x205F, 0x3000, 0xFEFF]"

definition WHITESPACE_CHARS_ENCODING :: "(jschar \<times> jsstring) list" where
  "WHITESPACE_CHARS_ENCODING =
     map (\<lambda>(i, c). (c, padStart 2 48 (number_toString (int i)))) (enumerate 0 WHITESPACE_CHARS)"

definition WHITESPACE_CHARS_DECODING :: "(jsstring \<times> jschar) list" where
  "WHITESPACE_CHARS_DECODING = map (\<lambda>(k, v). (v, k)) WHITESPACE_CHARS_ENCODING"

definition EVENT_TYPE_TOPIC_COMPONENTS :: "(jsstring \<times> CommunicationEventType) list" where
  "EVENT_TYPE_TOPIC_COMPONENTS =
     [(ascii ''ADV'', Advertise),
      (ascii ''DAD'', Deadvertise),
      (ascii ''CHN'', Channel),
      (ascii ''ASC'', Associate),
      (ascii ''IOV'', IoValue),
      (ascii ''DSC'', Discover),
      (ascii ''RSV'', Resolve),
      (ascii ''QRY'', Query),
      (ascii ''RTV'', Retrieve),
      (ascii ''UPD'', Update),
      (ascii ''CPL'', Complete),
      (ascii ''CLL'', Call),
      (ascii ''RTN'', Return)]"

text \<open>The array \<open>TOPIC_COMPONENTS_BY_EVENT_TYPE\<close> is filled key by key, a later key
  overwriting an earlier one at the same index.\<close>

definition TOPIC_COMPONENTS_BY_EVENT_TYPE :: "(CommunicationEventType \<times> jsstring) list" where
  "TOPIC_COMPONENTS_BY_EVENT_TYPE = map (\<lambda>(key, eventType). (eventType, key)) EVENT_TYPE_TOPIC_COMPONENTS"

definition getEventType :: "jsstring \<Rightarrow> CommunicationEventType option" where
  "getEventType topicComponent = map_of EVENT_TYPE_TOPIC_COMPONENTS topicComponent"

definition getEventTopicComponentPrefix :: "CommunicationEventType \<Rightarrow> jsstring option" where
  "getEventTopicComponentPrefix eventType = Map_get TOPIC_COMPONENTS_BY_EVENT_TYPE eventType"

definition isOneWayEvent :: "CommunicationEventType \<Rightarrow> bool" where
  "isOneWayEvent eventType =
     (event_code eventType > event_code OneWay \<and> event_code eventType < event_code TwoWay)"

text \<open>\<open>_encodeTopicComponent\<close>: every match of \<open>/[.\s]/g\<close> is replaced by what the
  callback returns for it.\<close>

definition encode_char :: "jschar \<Rightarrow> jsstring" where
  "encode_char char =
     (if char = DOT then [NUL, NUL, NUL]
      else (case Map_get WHITESPACE_CHARS_ENCODING char of
              None \<Rightarrow> NUL # ascii ''00''
            | Some encode \<Rightarrow> NUL # encode))"

definition encodeTopicComponent :: "jsstring \<Rightarrow> jsstring" where
  "encodeTopicComponent component =
     concat (map (\<lambda>c. if c = DOT \<or> regex_space c then encode_char c else [c]) component)"

text \<open>\<open>_decodeTopicComponent\<close>: the matches of \<open>/\u0000(..)/g\<close> are found from left to
  right and do not overlap; a callback that returns \<open>undefined\<close> inserts the text
  \<open>undefined\<close>.\<close>

definition decode_match :: "jsstring \<Rightarrow> jsstring" where
  "decode_match c1 =
     (if take 1 c1 = [NUL] then [DOT]
      else js_str (map_option (\<lambda>ch. [ch]) (Map_get WHITESPACE_CHARS_DECODING c1)))"

fun decodeTopicComponent :: "jsstring \<Rightarrow> jsstring" where
  "decodeTopicComponent (c # a # b # rest) =
     (if c = NUL \<and> regex_any a \<and> regex_any b
      then decode_match [a, b] @ decodeTopicComponent rest
      else c # decodeTopicComponent (a # b # rest))"
| "decodeTopicComponent (c # rest) = c # decodeTopicComponent rest"
| "decodeTopicComponent [] = []"

definition getTopicName ::
  "int \<Rightarrow> jsstring option \<Rightarrow> CommunicationEventType \<Rightarrow> jsstring option \<Rightarrow> jsstring \<Rightarrow>
   jsstring option \<Rightarrow> error + jsstring" where
  "getTopicName version namespace eventType eventTypeFilter sourceId correlationId =
     (let event = js_str (getEventTopicComponentPrefix eventType);
          event = (case eventTypeFilter of
                     None \<Rightarrow> event
                   | Some f \<Rightarrow> if f \<noteq> [] then event @ encodeTopicComponent f else event)
      in case namespace of
           None \<Rightarrow> Inl TypeError
         | Some ns \<Rightarrow>
             (let topic = PROTOCOL_NAME @ [DOT] @ number_toString version @ [DOT] @
                          encodeTopicComponent ns @ [DOT] @ event @ [DOT] @ sourceId
              in Inr (if \<not> isOneWayEvent eventType then topic @ [DOT] @ js_str correlationId
                      else topic)))"

definition getTopicFilter ::
  "int \<Rightarrow> jsstring option \<Rightarrow> CommunicationEventType \<Rightarrow> jsstring option \<Rightarrow>
   jsstring option \<Rightarrow> jsstring" where
  "getTopicFilter version namespace eventType eventTypeFilter correlationId =
     (let event = js_str (getEventTopicComponentPrefix eventType);
          event = (case eventTypeFilter of
                     None \<Rightarrow> event
                   | Some f \<Rightarrow> if f \<noteq> [] then event @ encodeTopicComponent f else event);
          comps = PROTOCOL_NAME @ [DOT] @ number_toString version @ [DOT] @
                  (case namespace of
                     None \<Rightarrow> []
                   | Some ns \<Rightarrow> if ns \<noteq> [] then encodeTopicComponent ns else []) @
                  [DOT] @ event @ [DOT]
      in if \<not> isOneWayEvent eventType
         then (case correlationId of
                 None \<Rightarrow> comps @ [DOT]
               | Some corr \<Rightarrow> if corr \<noteq> [] then comps @ [DOT] @ corr else comps @ [DOT])
         else comps)"

definition isCoatyTopicLike :: "jsstring \<Rightarrow> bool" where
  "isCoatyTopicLike topicName =
     (take (length PROTOCOL_NAME_PREFIX) topicName = PROTOCOL_NAME_PREFIX)"

definition parseEvent :: "jsstring \<Rightarrow> CommunicationEventType option \<times> jsstring option" where
  "parseEvent event =
     (let typeLen = 3;
          hasEventFilter = (length event > typeLen);
          ty = (if hasEventFilter then take typeLen event else event);
          filter = (if hasEventFilter then Some (drop typeLen event) else None)
      in (getEventType ty, filter))"

record WampTopic =
  version :: "int option"
  namespace :: jsstring
  eventType :: "CommunicationEventType option"
  eventTypeFilter :: "jsstring option"
  sourceId :: "jsstring option"
  correlationId :: "jsstring option"

text \<open>\<open>createByName\<close> returns \<open>undefined\<close> for a topic that does not start with the
  protocol name, and raises a TypeError where it reads a property of a missing segment.\<close>

definition createByName :: "jsstring \<Rightarrow> error + WampTopic option" where
  "createByName topicName =
     (if \<not> isCoatyTopicLike topicName then Inr None
      else
        (let parts = js_split DOT topicName;
             v = parseInt (js_str (nth_opt parts 1))
         in case nth_opt parts 3 of
              None \<Rightarrow> Inl TypeError
            | Some event \<Rightarrow>
                (case parseEvent event of
                   (evType, evFilter) \<Rightarrow>
                     (case nth_opt parts 2 of
                        None \<Rightarrow> Inl TypeError
                      | Some ns \<Rightarrow>
                          Inr (Some \<lparr> version = v,
                                      namespace = decodeTopicComponent ns,
                                      eventType = evType,
                                      eventTypeFilter =
                                        (case evFilter of
                                           None \<Rightarrow> None
                                         | Some f \<Rightarrow> if f \<noteq> [] then Some (decodeTopicComponent f)
                                                     else Some f),
                                      sourceId = nth_opt parts 4,
                                      correlationId =
                                        (if nth_opt parts 5 = Some [] then None
                                         else nth_opt parts 5) \<rparr>)))))"

section \<open>The binding (class WampBinding)\<close>

subsection \<open>Data\<close>

text \<open>
  The types \<open>CommunicationEventLike\<close>, \<open>CommunicationBindingJoinOptions\<close> and
  \<open>CommunicationState\<close> come from @coaty/core; the records hold the properties the binding
  reads. The payload of an event is opaque to the binding: a type parameter. An optional
  property is an \<open>option\<close>. Where two interfaces of the source share a property name the
  fields carry a prefix.
\<close>

datatype CommunicationState = Offline | Online

record EventOptions =
  opt_retain :: "bool option"
  opt_acknowledge :: "bool option"
  opt_match :: "jsstring option"

record 'p CommunicationEventLike =
  ev_eventType :: CommunicationEventType
  ev_eventTypeFilter :: "jsstring option"
  ev_sourceId :: jsstring
  ev_correlationId :: "jsstring option"
  ev_data :: 'p
  ev_isDataRaw :: bool
  ev_options :: "EventOptions option"

record 'p CommunicationBindingJoinOptions =
  joinEvents :: "'p CommunicationEventLike list"
  unjoinEvent :: "'p CommunicationEventLike"

record WampBindingOptions =
  opt_namespace :: "jsstring option"
  shouldEnableCrossNamespacing :: bool

text \<open>Interface \<open>PublicationItem\<close>.\<close>

record 'p PublicationItem =
  pub_topic :: "jsstring option"
  pub_payload :: 'p
  pub_isKwargsPayload :: bool
  pub_options :: "EventOptions option"

text \<open>Interface \<open>SubscriptionItem\<close>; the live handle \<open>subscription\<close> is an opaque
  \<open>ISubscription\<close> of the transport.\<close>

type_synonym ISubscription = nat

record SubscriptionItem =
  sub_eventType :: CommunicationEventType
  sub_topic :: "jsstring option"
  sub_match :: jsstring
  sub_isKwargsPayload :: bool
  sub_subscription :: "ISubscription option"

text \<open>
  The transport is the autobahn library, outside the sources. What the binding asks of it is
  recorded as a list of calls. What it answers synchronously is a parameter of the model, a
  function of the calls made so far and the call at hand: the call raises an exception, it
  returns no promise (\<open>publish\<close> without acknowledgement), or it returns a promise that is
  resolved or rejected later. For a publication the model runs the callback of the promise
  right after the call, with no other handler of the binding in between; the callbacks of
  \<open>subscribe\<close>, \<open>unsubscribe\<close> and \<open>call\<close>, which set or clear the live handle of a
  single item or write to the log, are not part of the model, and neither is logging. A
  theorem about a state holds for whatever handles its items carry. A call on a connection
  whose session does not exist raises too: it is one of the calls that the parameter lets
  raise.
\<close>

datatype scope = destroyed | detached

datatype 'p kwargs = EmptyObject | Kwargs 'p

datatype 'p transport_call =
    ConnectionOpen
  | ConnectionClose
  | AddTestament "jsstring option" 'p scope
  | Subscribe "jsstring option" jsstring
  | Unsubscribe ISubscription
  | Publish "jsstring option" "'p list" "'p kwargs" bool bool

datatype response = Throws | NoPromise | Resolves | Rejects

type_synonym 'p router = "'p transport_call list \<Rightarrow> 'p transport_call \<Rightarrow> response"

text \<open>The getters \<open>isConnected\<close> and \<open>isOpen\<close> of the autobahn \<open>Connection\<close>.\<close>

record Connection =
  isConnected :: bool
  isOpen :: bool

text \<open>The fields of the binding, the notifications it has emitted on the channel
  \<open>communicationState\<close>, and the calls it has made to the transport.\<close>

record 'p WampBinding =
  options :: WampBindingOptions
  joinOptions :: "'p CommunicationBindingJoinOptions option"
  pendingPublicationItems :: "'p PublicationItem list"
  issuedSubscriptionItems :: "SubscriptionItem list"
  isPublishingDeferred :: bool
  connection :: "Connection option"
  sessionIdLogItem :: jsstring
  emitted :: "CommunicationState list"
  calls :: "'p transport_call list"

text \<open>A method either returns or raises; a method that raises leaves the fields as they
  are at that point.\<close>

datatype 's outcome = Done (state_of: 's) | Thrown error (state_of: 's)

definition and_then :: "'s outcome \<Rightarrow> ('s \<Rightarrow> 's outcome) \<Rightarrow> 's outcome" where
  "and_then r f = (case r of Done s \<Rightarrow> f s | Thrown e s \<Rightarrow> Thrown e s)"

definition session_call :: "'p router \<Rightarrow> 'p transport_call \<Rightarrow> 'p WampBinding \<Rightarrow> 'p WampBinding outcome" where
  "session_call r c s =
     (if r (calls s) c = Throws then Thrown SessionError s
      else Done (s\<lparr>calls := calls s @ [c]\<rparr>))"

definition emit :: "CommunicationState \<Rightarrow> 'p WampBinding \<Rightarrow> 'p WampBinding" where
  "emit st s = s\<lparr>emitted := emitted s @ [st]\<rparr>"

text \<open>\<open>this._connection?.isOpen\<close> and \<open>this._connection?.isConnected\<close>.\<close>

definition connection_isOpen :: "'p WampBinding \<Rightarrow> bool" where
  "connection_isOpen s = (case connection s of None \<Rightarrow> False | Some c \<Rightarrow> isOpen c)"

definition connection_isConnected :: "'p WampBinding \<Rightarrow> bool" where
  "connection_isConnected s = (case connection s of None \<Rightarrow> False | Some c \<Rightarrow> isConnected c)"

subsection \<open>Reset\<close>

definition resetSession :: "'p WampBinding \<Rightarrow> 'p WampBinding" where
  "resetSession s =
     emit Offline
       (s\<lparr>sessionIdLogItem := ascii ''[---] '',
          issuedSubscriptionItems :=
            map (\<lambda>i. i\<lparr>sub_subscription := None\<rparr>) (issuedSubscriptionItems s)\<rparr>)"

definition reset :: "'p WampBinding \<Rightarrow> 'p WampBinding" where
  "reset s =
     resetSession
       (s\<lparr>connection := None,
          joinOptions := None,
          isPublishingDeferred := True,
          pendingPublicationItems := [],
          issuedSubscriptionItems := []\<rparr>)"

subsection \<open>Topics of events\<close>

definition apiVersion :: int where
  "apiVersion = 1"

definition getTopicFor :: "'p WampBinding \<Rightarrow> 'p CommunicationEventLike \<Rightarrow> error + jsstring option" where
  "getTopicFor s eventLike =
     (if ev_eventType eventLike = Raw then Inr (ev_eventTypeFilter eventLike)
      else if ev_eventType eventLike = IoValue then Inr (ev_eventTypeFilter eventLike)
      else (case getTopicName apiVersion (opt_namespace (options s)) (ev_eventType eventLike)
                   (ev_eventTypeFilter eventLike) (ev_sourceId eventLike)
                   (ev_correlationId eventLike) of
              Inl e \<Rightarrow> Inl e
            | Inr t \<Rightarrow> Inr (Some t)))"

definition getTopicFilterFor :: "'p WampBinding \<Rightarrow> 'p CommunicationEventLike \<Rightarrow> jsstring option \<times> jsstring" where
  "getTopicFilterFor s eventLike =
     (if ev_eventType eventLike = Raw
      then (ev_eventTypeFilter eventLike,
            (case ev_options eventLike of
               None \<Rightarrow> ascii ''exact''
             | Some opts \<Rightarrow>
                 (case opt_match opts of
                    None \<Rightarrow> ascii ''exact''
                  | Some m \<Rightarrow> if m \<noteq> [] then m else ascii ''exact'')))
      else if ev_eventType eventLike = IoValue
      then (ev_eventTypeFilter eventLike, ascii ''exact'')
      else (Some (getTopicFilter apiVersion
                    (if shouldEnableCrossNamespacing (options s) then None
                     else opt_namespace (options s))
                    (ev_eventType eventLike) (ev_eventTypeFilter eventLike)
                    (ev_correlationId eventLike)),
            ascii ''wildcard''))"

definition isKwargsPayloadOf :: "'p CommunicationEventLike \<Rightarrow> bool" where
  "isKwargsPayloadOf eventLike = (\<not> ev_isDataRaw eventLike \<and> ev_eventType eventLike \<noteq> IoValue)"

subsection \<open>Testaments\<close>

definition addSessionTestaments :: "'p router \<Rightarrow> 'p WampBinding \<Rightarrow> 'p WampBinding outcome" where
  "addSessionTestaments r s =
     (case joinOptions s of
        None \<Rightarrow> Thrown TypeError s
      | Some jo \<Rightarrow>
          (case getTopicFor s (unjoinEvent jo) of
             Inl e \<Rightarrow> Thrown e s
           | Inr topic \<Rightarrow>
               (let payload = ev_data (unjoinEvent jo)
                in and_then (session_call r (AddTestament topic payload destroyed) s)
                     (session_call r (AddTestament topic payload detached)))))"

subsection \<open>Publication management\<close>

definition publicationItem :: "jsstring option \<Rightarrow> 'p CommunicationEventLike \<Rightarrow> 'p PublicationItem" where
  "publicationItem topic eventLike =
     \<lparr> pub_topic = topic,
       pub_payload = ev_data eventLike,
       pub_isKwargsPayload = isKwargsPayloadOf eventLike,
       pub_options = ev_options eventLike \<rparr>"

definition addPublicationItem ::
  "'p CommunicationEventLike \<Rightarrow> bool \<Rightarrow> bool \<Rightarrow> 'p WampBinding \<Rightarrow> 'p WampBinding outcome" where
  "addPublicationItem eventLike shouldAddFirst once s =
     (case getTopicFor s eventLike of
        Inl e \<Rightarrow> Thrown e s
      | Inr topic \<Rightarrow>
          if once \<and> list_ex (\<lambda>i. pub_topic i = topic) (pendingPublicationItems s) then Done s
          else if shouldAddFirst
          then Done (s\<lparr>pendingPublicationItems :=
                          publicationItem topic eventLike # pendingPublicationItems s\<rparr>)
          else Done (s\<lparr>pendingPublicationItems :=
                          pendingPublicationItems s @ [publicationItem topic eventLike]\<rparr>))"

text \<open>The call \<open>session.publish(topic, args, kwargs, {retain, acknowledge, exclude_me})\<close>
  for an item.\<close>

definition option_flag :: "EventOptions option \<Rightarrow> (EventOptions \<Rightarrow> bool option) \<Rightarrow> bool" where
  "option_flag opts field =
     (case opts of None \<Rightarrow> False
      | Some x \<Rightarrow> (case field x of None \<Rightarrow> False | Some b \<Rightarrow> b))"

definition publish_call :: "'p PublicationItem \<Rightarrow> 'p transport_call" where
  "publish_call item =
     Publish (pub_topic item)
       (if pub_isKwargsPayload item then [] else [pub_payload item])
       (if pub_isKwargsPayload item then Kwargs (pub_payload item) else EmptyObject)
       (option_flag (pub_options item) opt_retain)
       (option_flag (pub_options item) opt_acknowledge)"

text \<open>
  \<open>_doDrainPublications\<close>. An exception of \<open>publish\<close> leaves the method. Without a promise
  the head is removed and the method calls itself. With a promise the callback of
  \<open>then\<close> removes the head and calls the method again, and the callback of \<open>catch\<close>, which
  also receives an exception raised under \<open>then\<close>, defers publishing.
\<close>

function doDrainPublications :: "'p router \<Rightarrow> 'p WampBinding \<Rightarrow> 'p WampBinding outcome" where
  "doDrainPublications r s =
     (if \<not> connection_isOpen s \<or> pendingPublicationItems s = []
      then Done (s\<lparr>isPublishingDeferred := True\<rparr>)
      else
        (case r (calls s) (publish_call (hd (pendingPublicationItems s))) of
           Throws \<Rightarrow> Thrown SessionError s
         | NoPromise \<Rightarrow>
             doDrainPublications r
               (s\<lparr>calls := calls s @ [publish_call (hd (pendingPublicationItems s))],
                  pendingPublicationItems := tl (pendingPublicationItems s)\<rparr>)
         | Resolves \<Rightarrow>
             (case doDrainPublications r
                     (s\<lparr>calls := calls s @ [publish_call (hd (pendingPublicationItems s))],
                        pendingPublicationItems := tl (pendingPublicationItems s)\<rparr>) of
                Done s' \<Rightarrow> Done s'
              | Thrown e s' \<Rightarrow> Done (s'\<lparr>isPublishingDeferred := True\<rparr>))
         | Rejects \<Rightarrow>
             Done (s\<lparr>calls := calls s @ [publish_call (hd (pendingPublicationItems s))],
                      isPublishingDeferred := True\<rparr>)))"
  by pat_completeness auto

termination
  by (relation "measure (\<lambda>(r, s). length (pendingPublicationItems s))") auto

declare doDrainPublications.simps [simp del]

definition drainPublications :: "'p router \<Rightarrow> 'p WampBinding \<Rightarrow> 'p WampBinding outcome" where
  "drainPublications r s =
     (if \<not> isPublishingDeferred s then Done s
      else doDrainPublications r (s\<lparr>isPublishingDeferred := False\<rparr>))"

subsection \<open>Subscription management\<close>

definition subscriptionItemPredicate ::
  "CommunicationEventType \<Rightarrow> jsstring option \<Rightarrow> jsstring \<Rightarrow> SubscriptionItem \<Rightarrow> bool" where
  "subscriptionItemPredicate et topic m item =
     (sub_eventType item = et \<and> sub_topic item = topic \<and> sub_match item = m)"

text \<open>\<open>Array.prototype.findIndex\<close>; \<open>None\<close> stands for -1.\<close>

fun findIndex :: "('a \<Rightarrow> bool) \<Rightarrow> 'a list \<Rightarrow> nat option" where
  "findIndex P [] = None"
| "findIndex P (x # xs) =
     (if P x then Some 0 else map_option Suc (findIndex P xs))"

text \<open>The call \<open>session.subscribe(item.topic, handler, {match: item.match})\<close>.\<close>

definition subscribe_call :: "SubscriptionItem \<Rightarrow> 'p transport_call" where
  "subscribe_call item = Subscribe (sub_topic item) (sub_match item)"

definition subscribe :: "'p router \<Rightarrow> SubscriptionItem \<Rightarrow> 'p WampBinding \<Rightarrow> 'p WampBinding outcome" where
  "subscribe r item s =
     (if connection_isOpen s then session_call r (subscribe_call item) s
      else Done s)"

fun subscribeItems :: "'p router \<Rightarrow> SubscriptionItem list \<Rightarrow> 'p WampBinding \<Rightarrow> 'p WampBinding outcome" where
  "subscribeItems r [] s = Done s"
| "subscribeItems r (item # items) s = and_then (subscribe r item s) (subscribeItems r items)"

definition unsubscribe :: "'p router \<Rightarrow> SubscriptionItem \<Rightarrow> 'p WampBinding \<Rightarrow> 'p WampBinding outcome" where
  "unsubscribe r item s =
     (case sub_subscription item of
        None \<Rightarrow> Done s
      | Some sub \<Rightarrow>
          (case connection s of
             None \<Rightarrow> Done s
           | Some c \<Rightarrow> session_call r (Unsubscribe sub) s))"

text \<open>The item that \<open>_addSubscriptionItem\<close> builds for an event, and the key by which
  \<open>_subscriptionItemPredicate\<close> compares items.\<close>

definition subscriptionItem :: "'p WampBinding \<Rightarrow> 'p CommunicationEventLike \<Rightarrow> SubscriptionItem" where
  "subscriptionItem s eventLike =
     (case getTopicFilterFor s eventLike of
        (topicFilter, m) \<Rightarrow>
          \<lparr> sub_eventType = ev_eventType eventLike,
            sub_topic = topicFilter,
            sub_match = m,
            sub_isKwargsPayload = isKwargsPayloadOf eventLike,
            sub_subscription = None \<rparr>)"

definition sub_key :: "SubscriptionItem \<Rightarrow> CommunicationEventType \<times> jsstring option \<times> jsstring" where
  "sub_key item = (sub_eventType item, sub_topic item, sub_match item)"

definition addSubscriptionItem ::
  "'p router \<Rightarrow> 'p CommunicationEventLike \<Rightarrow> 'p WampBinding \<Rightarrow> 'p WampBinding outcome" where
  "addSubscriptionItem r eventLike s =
     (let item = subscriptionItem s eventLike
      in case findIndex (subscriptionItemPredicate (sub_eventType item) (sub_topic item)
                           (sub_match item)) (issuedSubscriptionItems s) of
           None \<Rightarrow>
             subscribe r item
               (s\<lparr>issuedSubscriptionItems := issuedSubscriptionItems s @ [item]\<rparr>)
         | Some index \<Rightarrow>
             (let existingSubscription = issuedSubscriptionItems s ! index
              in and_then
                   (subscribe r item
                      (s\<lparr>issuedSubscriptionItems := (issuedSubscriptionItems s)[index := item]\<rparr>))
                   (unsubscribe r existingSubscription)))"

definition removeSubscriptionItem ::
  "'p router \<Rightarrow> 'p CommunicationEventLike \<Rightarrow> 'p WampBinding \<Rightarrow> 'p WampBinding outcome" where
  "removeSubscriptionItem r eventLike s =
     (case getTopicFilterFor s eventLike of
        (topicFilter, m) \<Rightarrow>
          (case findIndex (subscriptionItemPredicate (ev_eventType eventLike) topicFilter m)
                  (issuedSubscriptionItems s) of
             None \<Rightarrow> Done s
           | Some index \<Rightarrow>
               unsubscribe r (issuedSubscriptionItems s ! index)
                 (s\<lparr>issuedSubscriptionItems :=
                      take index (issuedSubscriptionItems s) @
                      drop (Suc index) (issuedSubscriptionItems s)\<rparr>)))"

subsection \<open>The handlers of the binding protocol and of the connection\<close>

definition onInit :: "'p WampBinding \<Rightarrow> 'p WampBinding" where
  "onInit s = reset s"

text \<open>\<open>onJoin\<close> creates the connection, installs the two handlers below and opens it.\<close>

definition onJoin :: "'p CommunicationBindingJoinOptions \<Rightarrow> 'p WampBinding \<Rightarrow> 'p WampBinding" where
  "onJoin jo s =
     s\<lparr>joinOptions := Some jo,
       connection := Some \<lparr> isConnected = False, isOpen = False \<rparr>,
       calls := calls s @ [ConnectionOpen]\<rparr>"

text \<open>The loop \<open>for (let i = joinEvents.length - 1; i >= 0; i--)\<close>; the second argument
  is \<open>i + 1\<close>.\<close>

fun addJoinEvents ::
  "'p CommunicationEventLike list \<Rightarrow> nat \<Rightarrow> 'p WampBinding \<Rightarrow> 'p WampBinding outcome" where
  "addJoinEvents evs 0 s = Done s"
| "addJoinEvents evs (Suc i) s =
     and_then (addPublicationItem (evs ! i) True True s) (addJoinEvents evs i)"

text \<open>
  The body of the \<open>try\<close> block of \<open>connection.onopen\<close>. The first log statement reads
  \<open>this._connection.transport\<close>, and the loop reads \<open>this._joinOptions.joinEvents\<close>: each
  raises a TypeError when the field is \<open>undefined\<close>.
\<close>

definition onopen_try :: "'p router \<Rightarrow> int \<Rightarrow> 'p WampBinding \<Rightarrow> 'p WampBinding outcome" where
  "onopen_try r sessionId s =
     (let s1 = s\<lparr>sessionIdLogItem := ascii ''['' @ number_toString sessionId @ ascii ''] ''\<rparr>
      in case connection s1 of
           None \<Rightarrow> Thrown TypeError s1
         | Some c \<Rightarrow>
             and_then (addSessionTestaments r (emit Online s1))
               (\<lambda>s2. and_then (subscribeItems r (issuedSubscriptionItems s2) s2)
                  (\<lambda>s3. case joinOptions s3 of
                           None \<Rightarrow> Thrown TypeError s3
                         | Some jo \<Rightarrow>
                             and_then (addJoinEvents (joinEvents jo) (length (joinEvents jo)) s3)
                               (drainPublications r))))"

definition connection_onopen :: "'p router \<Rightarrow> int \<Rightarrow> 'p WampBinding \<Rightarrow> 'p WampBinding" where
  "connection_onopen r sessionId s =
     (case onopen_try r sessionId s of
        Done s' \<Rightarrow> s'
      | Thrown e s' \<Rightarrow> reset s')"

datatype close_reason = closed | lost | unreachable | unsupported | other_reason

definition connection_onclose :: "close_reason \<Rightarrow> 'p WampBinding \<Rightarrow> 'p WampBinding" where
  "connection_onclose reason s =
     (case reason of
        closed \<Rightarrow> reset s
      | lost \<Rightarrow> resetSession s
      | unreachable \<Rightarrow> reset s
      | unsupported \<Rightarrow> reset s
      | other_reason \<Rightarrow> reset s)"

definition onUnjoin :: "'p WampBinding \<Rightarrow> 'p WampBinding" where
  "onUnjoin s =
     (if \<not> connection_isConnected s then reset s
      else s\<lparr>calls := calls s @ [ConnectionClose]\<rparr>)"

definition onUnsubscribe ::
  "'p router \<Rightarrow> 'p CommunicationEventLike \<Rightarrow> 'p WampBinding \<Rightarrow> 'p WampBinding outcome" where
  "onUnsubscribe r eventLike s = removeSubscriptionItem r eventLike s"

text \<open>A binding as it is after construction and \<open>onInit\<close>.\<close>

definition initial_binding :: "WampBindingOptions \<Rightarrow> 'p WampBinding" where
  "initial_binding opts =
     onInit \<lparr> options = opts, joinOptions = None, pendingPublicationItems = [],
              issuedSubscriptionItems = [], isPublishingDeferred = False, connection = None,
              sessionIdLogItem = [], emitted = [], calls = [] \<rparr>"

text \<open>What the transport does to the connection object when it has opened a session,
  before it calls the handler \<open>onopen\<close>: the getters of the connection turn true. The
  field \<open>_connection\<close> of the binding is not touched.\<close>

definition transport_opened :: "'p WampBinding \<Rightarrow> 'p WampBinding" where
  "transport_opened s =
     s\<lparr>connection := map_option (\<lambda>c. c\<lparr>isConnected := True, isOpen := True\<rparr>) (connection s)\<rparr>"

text \<open>The binding after \<open>onInit\<close> and \<open>onJoin\<close>, once the transport has opened the
  session.\<close>

definition joined_binding ::
  "WampBindingOptions \<Rightarrow> 'p CommunicationBindingJoinOptions \<Rightarrow> 'p WampBinding" where
  "joined_binding opts jo = transport_opened (onJoin jo (initial_binding opts))"

text \<open>A transport whose every call returns a promise that is resolved.\<close>

definition always_resolves :: "'p router" where
  "always_resolves h c = Resolves"

text \<open>Events for examples: a Raw event on a topic, and an Advertise event with a filter
  and a source.\<close>

definition raw_event :: "string \<Rightarrow> 'p \<Rightarrow> 'p CommunicationEventLike" where
  "raw_event topic d =
     \<lparr> ev_eventType = Raw, ev_eventTypeFilter = Some (ascii topic), ev_sourceId = [],
       ev_correlationId = None, ev_data = d, ev_isDataRaw = True, ev_options = None \<rparr>"

definition advertise_event :: "string \<Rightarrow> string \<Rightarrow> 'p \<Rightarrow> 'p CommunicationEventLike" where
  "advertise_event flt src d =
     \<lparr> ev_eventType = Advertise, ev_eventTypeFilter = Some (ascii flt),
       ev_sourceId = ascii src, ev_correlationId = None, ev_data = d, ev_isDataRaw = False,
       ev_options = None \<rparr>"

definition example_options :: WampBindingOptions where
  "example_options = \<lparr> opt_namespace = Some (ascii ''ns''), shouldEnableCrossNamespacing = False \<rparr>"

section \<open>Properties of the component escaping\<close>

lemma enc_table: "WHITESPACE_CHARS_ENCODING = 
  [(0x20, [48,48]), (0x0C, [48,49]), (0x0A, [48,50]), (0x0D, [48,51]), (0x09, [48,52]), (0x0B, [48,53]), (0xA0, [48,54]), (0x1680, [48,55]),
   (0x2000, [48,56]), (0x2001, [48,57]), (0x2002, [49,48]), (0x2003, [49,49]), (0x2004, [49,50]), (0x2005, [49,51]), (0x2006, [49,52]),
   (0x2007, [49,53]), (0x2008, [49,54]), (0x2009, [49,55]), (0x200A, [49,56]),
   (0x2028, [49,57]), (0x2029, [50,48]), (0x202F, [50,49]), (0x205F, [50,50]), (0x3000, [50,51]), (0xFEFF, [50,52])]"
  by (simp add: WHITESPACE_CHARS_ENCODING_def WHITESPACE_CHARS_def enumerate_eq_zip upt_rec padStart_def number_toString_def decimal.simps)

lemma regex_space_iff: "regex_space c \<longleftrightarrow> c \<in> set WHITESPACE_CHARS"
  by (auto simp add: regex_space_def JS_WHITESPACE_def WHITESPACE_CHARS_def)

lemma encode_char_space:
  assumes "regex_space c"
  shows "\<exists>d1 d2. encode_char c = [NUL, d1, d2] \<and> is_digit d1 \<and> is_digit d2
           \<and> decode_match [d1, d2] = [c]"
  using assms
  unfolding regex_space_def JS_WHITESPACE_def
  by (simp add: encode_char_def decode_match_def Map_get_def WHITESPACE_CHARS_DECODING_def enc_table ascii_def js_str_def is_digit_def)
    (elim disjE; simp)

lemma encode_char_dot: "encode_char DOT = [NUL, NUL, NUL]"
  by (simp add: encode_char_def)

lemma decode_cons_nonNUL: "c \<noteq> NUL \<Longrightarrow> decodeTopicComponent (c # xs) = c # decodeTopicComponent xs"
  by (cases xs rule: decodeTopicComponent.cases) auto

lemma is_digit_regex_any: "is_digit d \<Longrightarrow> regex_any d"
  by (auto simp: is_digit_def regex_any_def)

lemma encode_Cons: "encodeTopicComponent (c # s) =
      (if c = DOT \<or> regex_space c then encode_char c else [c]) @ encodeTopicComponent s"
  by (simp add: encodeTopicComponent_def)

lemma encode_Nil: "encodeTopicComponent [] = []"
  by (simp add: encodeTopicComponent_def)

lemma decode_encode: "NUL \<notin> set s \<Longrightarrow> decodeTopicComponent (encodeTopicComponent s) = s"
proof (induction s)
  case Nil
  then show ?case by (simp add: encodeTopicComponent_def)
next
  case (Cons c s)
  then have IH: "decodeTopicComponent (encodeTopicComponent s) = s" and c0: "c \<noteq> NUL" by auto
  consider (dot) "c = DOT" | (ws) "c \<noteq> DOT" "regex_space c" | (plain) "c \<noteq> DOT" "\<not> regex_space c"
    by blast
  then show ?case
  proof cases
    case dot
    then show ?thesis using IH by (simp add: encode_Cons encode_char_dot regex_any_def decode_match_def)
  next
    case ws
    from encode_char_space [OF ws(2)] obtain d1 d2 where
      e: "encode_char c = [NUL, d1, d2]" and d: "is_digit d1" "is_digit d2"
      and m: "decode_match [d1, d2] = [c]" by blast
    show ?thesis using ws IH e m d by (simp add: encode_Cons is_digit_regex_any)
  next
    case plain
    then show ?thesis using IH c0 by (simp add: encode_Cons decode_cons_nonNUL)
  qed
qed

lemma encode_char_set: "c = DOT \<or> regex_space c \<Longrightarrow> set (encode_char c) \<subseteq> insert NUL {d. is_digit d}"
proof (cases "c = DOT")
  case True
  then show ?thesis by (simp add: encode_char_dot)
next
  case False
  assume "c = DOT \<or> regex_space c"
  with False have "regex_space c" by simp
  from encode_char_space [OF this] show ?thesis by auto
qed

lemma not_special_NUL_digit: "c = NUL \<or> is_digit c \<Longrightarrow> c \<noteq> DOT \<and> \<not> regex_space c \<and> c \<noteq> HASH"
  by (auto simp: is_digit_def regex_space_def JS_WHITESPACE_def)

lemma encode_set:
  "x \<in> set (encodeTopicComponent s) \<Longrightarrow> x \<noteq> DOT \<and> \<not> regex_space x \<and> (x = HASH \<longrightarrow> HASH \<in> set s)"
proof (induction s)
  case Nil
  then show ?case by (simp add: encodeTopicComponent_def)
next
  case (Cons c s)
  from Cons.prems have "x \<in> set (if c = DOT \<or> regex_space c then encode_char c else [c]) \<or> x \<in> set (encodeTopicComponent s)"
    by (simp add: encode_Cons)
  then show ?case
  proof
    assume h: "x \<in> set (if c = DOT \<or> regex_space c then encode_char c else [c])"
    show ?thesis
    proof (cases "c = DOT \<or> regex_space c")
      case True
      with h encode_char_set [OF True] have "x = NUL \<or> is_digit x" by auto
      from not_special_NUL_digit [OF this] show ?thesis by simp
    next
      case False
      with h show ?thesis by auto
    qed
  next
    assume "x \<in> set (encodeTopicComponent s)"
    from Cons.IH [OF this] show ?thesis by simp
  qed
qed

lemma encode_hash: "HASH \<in> set s \<Longrightarrow> HASH \<in> set (encodeTopicComponent s)"
  by (induction s) (auto simp: encodeTopicComponent_def regex_space_def JS_WHITESPACE_def)

section \<open>Properties of splitting, numbers and the event table\<close>

lemma js_split_no_sep: "sep \<notin> set a \<Longrightarrow> js_split sep a = [a]"
  by (induction a) auto

lemma js_split_append: "sep \<notin> set a \<Longrightarrow> js_split sep (a @ sep # rest) = a # js_split sep rest"
  by (induction a) auto

lemma decimal_digits: "c \<in> set (decimal n) \<Longrightarrow> is_digit c"
proof (induction n arbitrary: c rule: decimal.induct)
  case (1 n)
  show ?case
  proof (cases "n < 10")
    case True
    with "1.prems" show ?thesis by (simp add: decimal.simps [of n] is_digit_def)
  next
    case False
    with "1.prems" have "c \<in> set (decimal (n div 10)) \<or> c = 48 + n mod 10"
      by (auto simp add: decimal.simps [of n])
    then show ?thesis
    proof
      assume "c \<in> set (decimal (n div 10))"
      with False "1.IH" show ?thesis by simp
    next
      assume "c = 48 + n mod 10"
      moreover have "n mod 10 < 10" by simp
      ultimately show ?thesis unfolding is_digit_def by linarith
    qed
  qed
qed

lemma decimal_nonempty: "decimal n \<noteq> []"
  by (simp add: decimal.simps [of n])

lemma decimal_value: "foldl (\<lambda>acc c. acc * 10 + (c - 48)) 0 (decimal n) = n"
proof (induction n rule: decimal.induct)
  case (1 n)
  show ?case
  proof (cases "n < 10")
    case True
    then show ?thesis by (simp add: decimal.simps [of n])
  next
    case False
    with "1.IH" have "foldl (\<lambda>acc c. acc * 10 + (c - 48)) 0 (decimal (n div 10)) = n div 10" by simp
    with False show ?thesis by (simp add: decimal.simps [of n])
  qed
qed

lemma is_digit_plain: "is_digit c \<Longrightarrow> c \<noteq> DOT \<and> \<not> regex_space c \<and> c \<noteq> 43 \<and> c \<noteq> 45"
  by (auto simp: is_digit_def regex_space_def JS_WHITESPACE_def)

lemma takeWhile_all: "(\<And>x. x \<in> set xs \<Longrightarrow> P x) \<Longrightarrow> takeWhile P xs = xs"
  by (induction xs) auto

lemma parseInt_decimal: "parseInt (decimal n) = Some (int n)"
proof -
  obtain d ds where dd: "decimal n = d # ds" using decimal_nonempty [of n] by (cases "decimal n") auto
  have dig: "\<And>x. x \<in> set (decimal n) \<Longrightarrow> is_digit x" by (rule decimal_digits)
  have d: "is_digit d" using dig dd by simp
  have 1: "dropWhile regex_space (decimal n) = decimal n"
    using d is_digit_plain [OF d] by (simp add: dd)
  have 2: "takeWhile is_digit (decimal n) = decimal n" using dig by (rule takeWhile_all)
  have 3: "take 1 (decimal n) \<noteq> [43]" "take 1 (decimal n) \<noteq> [45]"
    using is_digit_plain [OF d] by (simp_all add: dd)
  show ?thesis
    unfolding parseInt_def Let_def 1
    using 3 decimal_nonempty [of n] by (simp add: 2 decimal_value)
qed

lemma parseInt_number_toString: "0 \<le> v \<Longrightarrow> parseInt (number_toString v) = Some v"
  by (simp add: number_toString_def parseInt_decimal)

lemma number_toString_no_dot: "0 \<le> v \<Longrightarrow> DOT \<notin> set (number_toString v)"
  using decimal_digits is_digit_plain by (auto simp: number_toString_def)

lemma prefix_table:
  assumes "et \<notin> {Raw, OneWay, TwoWay}"
  shows "\<exists>p. getEventTopicComponentPrefix et = Some p \<and> length p = 3 \<and> DOT \<notin> set p
             \<and> getEventType p = Some et"
  using assms
  by (cases et)
     (simp_all add: getEventTopicComponentPrefix_def getEventType_def Map_get_def
        TOPIC_COMPONENTS_BY_EVENT_TYPE_def EVENT_TYPE_TOPIC_COMPONENTS_def ascii_def)

lemma encode_no_dot: "DOT \<notin> set (encodeTopicComponent s)"
  using encode_set by blast

lemma encode_eq_Nil: "encodeTopicComponent s = [] \<longleftrightarrow> s = []"
  by (cases s) (auto simp: encode_Cons encode_Nil encode_char_def split: option.splits)

lemma PROTOCOL_NAME_eq: "PROTOCOL_NAME = [99, 111, 97, 116, 121]"
  by (simp add: PROTOCOL_NAME_def ascii_def)

lemma parseEvent_prefix:
  assumes "getEventType p = Some et" "length p = 3"
  shows "parseEvent (p @ e) = (Some et, if e = [] then None else Some e)"
  using assms by (cases "e = []") (simp_all add: parseEvent_def Let_def)

lemma split_topic5:
  assumes "DOT \<notin> set a" "DOT \<notin> set b" "DOT \<notin> set c" "DOT \<notin> set d" "DOT \<notin> set e"
  shows "js_split DOT (a @ [DOT] @ b @ [DOT] @ c @ [DOT] @ d @ [DOT] @ e) = [a, b, c, d, e]"
  using assms by (simp add: js_split_append js_split_no_sep)

lemma split_topic6:
  assumes "DOT \<notin> set a" "DOT \<notin> set b" "DOT \<notin> set c" "DOT \<notin> set d" "DOT \<notin> set e" "DOT \<notin> set g"
  shows "js_split DOT ((a @ [DOT] @ b @ [DOT] @ c @ [DOT] @ d @ [DOT] @ e) @ [DOT] @ g) = [a, b, c, d, e, g]"
  using assms by (simp add: js_split_append js_split_no_sep)

lemma isCoatyTopicLike_topic: "isCoatyTopicLike (PROTOCOL_NAME @ [DOT] @ rest)"
  by (simp add: isCoatyTopicLike_def PROTOCOL_NAME_PREFIX_def PROTOCOL_NAME_eq)

lemma createByName_parts:
  assumes "isCoatyTopicLike t"
    and "js_split DOT t = [a, number_toString v, encodeTopicComponent ns, p @ e, src] @ cs"
    and "0 \<le> v" "NUL \<notin> set ns" "getEventType p = Some et" "length p = 3"
  shows "createByName t =
     Inr (Some \<lparr> version = Some v, namespace = ns, eventType = Some et,
                 eventTypeFilter = (if e = [] then None else Some (decodeTopicComponent e)),
                 sourceId = Some src,
                 correlationId = (if nth_opt cs 0 = Some [] then None else nth_opt cs 0) \<rparr>)"
  using assms
  by (simp add: createByName_def Let_def nth_opt_def js_str_def parseInt_number_toString
      parseEvent_prefix decode_encode)

section \<open>Claims about the topic codec\<close>

text \<open>
  Claim C3. For every string without a NUL code unit, decoding the encoding of the string
  gives the string back, whatever dots and white space it contains; the string \<open>x.y\<close> is
  encoded as \<open>x\<close>, three NUL, \<open>y\<close>, which decodes to \<open>x.y\<close>.
\<close>

theorem decode_encode_inverse:
  "(NUL \<notin> set s \<longrightarrow> decodeTopicComponent (encodeTopicComponent s) = s) \<and>
   encodeTopicComponent (ascii ''x.y'') = [120, NUL, NUL, NUL, 121] \<and>
   decodeTopicComponent [120, NUL, NUL, NUL, 121] = ascii ''x.y''"
proof -
  have "encodeTopicComponent (ascii ''x.y'') = [120, NUL, NUL, NUL, 121]"
    by (simp add: ascii_def encode_Cons encode_Nil encode_char_dot regex_space_def JS_WHITESPACE_def)
  moreover have "decodeTopicComponent [120, NUL, NUL, NUL, 121] = ascii ''x.y''"
    by (simp add: ascii_def regex_any_def decode_match_def)
  ultimately show ?thesis using decode_encode [of s] by blast
qed

theorem decode_encode_inverse_witness:
  "NUL \<notin> set [97, DOT, 98, 0x20, 99, 0x2028, 0xFEFF] \<and>
   encodeTopicComponent [97, DOT, 98, 0x20, 99, 0x2028, 0xFEFF] =
     [97, NUL, NUL, NUL, 98, NUL, 48, 48, 99, NUL, 49, 57, NUL, 50, 52] \<and>
   decodeTopicComponent [97, NUL, NUL, NUL, 98, NUL, 48, 48, 99, NUL, 49, 57, NUL, 50, 52] =
     [97, DOT, 98, 0x20, 99, 0x2028, 0xFEFF]"
proof -
  have e: "encodeTopicComponent [97, DOT, 98, 0x20, 99, 0x2028, 0xFEFF] =
     [97, NUL, NUL, NUL, 98, NUL, 48, 48, 99, NUL, 49, 57, NUL, 50, 52]"
    by (simp add: encode_Cons encode_Nil encode_char_def regex_space_def JS_WHITESPACE_def
        Map_get_def enc_table)
  show ?thesis
    using decode_encode_inverse [of "[97, DOT, 98, 0x20, 99, 0x2028, 0xFEFF]"] e by simp
qed

text \<open>
  Claim C4. The publication topic of a valid descriptor decodes to the descriptor: the
  version is a safe integer that is not negative, the namespace and the filter hold no NUL,
  the event type is one of the thirteen kinds of the table, a filter that is given is not
  empty, the source and correlation identifiers hold no dot, and the correlation identifier
  is given, and not empty, exactly for the two-way kinds.
\<close>

theorem roundtrip:
  assumes v: "0 \<le> v" "v \<le> MAX_SAFE_INTEGER"
    and et: "et \<notin> {Raw, OneWay, TwoWay}"
    and ns: "NUL \<notin> set ns"
    and f: "case f of None \<Rightarrow> True | Some x \<Rightarrow> x \<noteq> [] \<and> NUL \<notin> set x"
    and src: "DOT \<notin> set src"
    and corr: "case corr of None \<Rightarrow> isOneWayEvent et
                 | Some c \<Rightarrow> \<not> isOneWayEvent et \<and> c \<noteq> [] \<and> DOT \<notin> set c"
  shows "\<exists>t. getTopicName v (Some ns) et f src corr = Inr t \<and>
             createByName t = Inr (Some \<lparr> version = Some v, namespace = ns, eventType = Some et,
                                          eventTypeFilter = f, sourceId = Some src,
                                          correlationId = corr \<rparr>)"
proof -
  from prefix_table [OF et] obtain p where
    p: "getEventTopicComponentPrefix et = Some p" "length p = 3" "DOT \<notin> set p"
       "getEventType p = Some et" by blast
  define e where "e = (case f of None \<Rightarrow> [] | Some x \<Rightarrow> encodeTopicComponent x)"
  have e_dot: "DOT \<notin> set (p @ e)" using p(3) encode_no_dot by (simp add: e_def split: option.splits)
  have e_dec: "(if e = [] then None else Some (decodeTopicComponent e)) = f"
    using f by (simp add: e_def encode_eq_Nil decode_encode split: option.splits)
  have v0: "0 \<le> v" using v by simp
  define base where "base = PROTOCOL_NAME @ [DOT] @ number_toString v @ [DOT] @
        encodeTopicComponent ns @ [DOT] @ (p @ e) @ [DOT] @ src"
  have name: "getTopicName v (Some ns) et f src corr =
      Inr (if \<not> isOneWayEvent et then base @ [DOT] @ js_str corr else base)"
    using f p(1) by (simp add: getTopicName_def Let_def js_str_def e_def base_def split: option.splits)
  have dots: "DOT \<notin> set PROTOCOL_NAME" "DOT \<notin> set (number_toString v)"
      "DOT \<notin> set (encodeTopicComponent ns)"
    using number_toString_no_dot [OF v0] encode_no_dot by (simp_all add: PROTOCOL_NAME_eq)
  show ?thesis
  proof (cases corr)
    case None
    with corr have ow: "isOneWayEvent et" by simp
    have sp: "js_split DOT base = [PROTOCOL_NAME, number_toString v, encodeTopicComponent ns, p @ e, src] @ []"
      unfolding base_def using split_topic5 [OF dots e_dot src] by simp
    have like: "isCoatyTopicLike base" unfolding base_def by (rule isCoatyTopicLike_topic)
    from createByName_parts [OF like sp v0 ns p(4) p(2)] e_dec None ow name
    show ?thesis by (simp add: nth_opt_def)
  next
    case (Some c)
    with corr have tw: "\<not> isOneWayEvent et" and c: "c \<noteq> []" "DOT \<notin> set c" by simp_all
    have sp: "js_split DOT (base @ [DOT] @ c) = [PROTOCOL_NAME, number_toString v, encodeTopicComponent ns, p @ e, src] @ [c]"
      unfolding base_def using split_topic6 [OF dots e_dot src c(2)] by simp
    have like: "isCoatyTopicLike (base @ [DOT] @ c)" unfolding base_def using isCoatyTopicLike_topic [of "number_toString v @ [DOT] @
        encodeTopicComponent ns @ [DOT] @ (p @ e) @ [DOT] @ src @ [DOT] @ c"] by simp
    from createByName_parts [OF like sp v0 ns p(4) p(2)] e_dec Some tw name c
    show ?thesis by (simp add: nth_opt_def js_str_def)
  qed
qed

theorem roundtrip_witness:
  "\<exists>t. getTopicName 1 (Some (ascii ''my ns'')) Update (Some (ascii ''core.Type''))
          (ascii ''src-1'') (Some (ascii ''corr-2'')) = Inr t \<and>
       createByName t =
         Inr (Some \<lparr> version = Some 1, namespace = ascii ''my ns'', eventType = Some Update,
                     eventTypeFilter = Some (ascii ''core.Type''),
                     sourceId = Some (ascii ''src-1''),
                     correlationId = Some (ascii ''corr-2'') \<rparr>)"
  using roundtrip [where v = 1 and et = Update and ns = "ascii ''my ns''"
      and f = "Some (ascii ''core.Type'')" and src = "ascii ''src-1''"
      and corr = "Some (ascii ''corr-2'')"]
  by (simp add: MAX_SAFE_INTEGER_def ascii_def isOneWayEvent_def)

text \<open>
  Claim C10, as the code has it. The output of the encoding holds no dot and no white space
  character, so it is one segment of a topic. The character \<open>#\<close> is not escaped: the
  output holds it exactly when the input does.
\<close>

theorem encode_one_segment:
  "DOT \<notin> set (encodeTopicComponent s) \<and>
   set (encodeTopicComponent s) \<inter> set WHITESPACE_CHARS = {} \<and>
   (HASH \<in> set (encodeTopicComponent s)) = (HASH \<in> set s) \<and>
   js_split DOT (encodeTopicComponent s) = [encodeTopicComponent s]"
proof -
  have 1: "DOT \<notin> set (encodeTopicComponent s)" by (rule encode_no_dot)
  have 2: "set (encodeTopicComponent s) \<inter> set WHITESPACE_CHARS = {}"
    using encode_set [of _ s] regex_space_iff by blast
  have 3: "(HASH \<in> set (encodeTopicComponent s)) = (HASH \<in> set s)"
    using encode_set [of HASH s] encode_hash [of s] by blast
  from 1 2 3 js_split_no_sep [OF 1] show ?thesis by blast
qed

text \<open>
  The claim C10 as it is stated, with \<open>#\<close> among the characters the output never
  holds, fails on the string \<open>a#b\<close>, which the encoding returns unchanged.
\<close>

theorem encode_hash_counterexample:
  "encodeTopicComponent (ascii ''a#b'') = ascii ''a#b'' \<and>
   HASH \<in> set (encodeTopicComponent (ascii ''a#b''))"
  by (simp add: ascii_def encode_Cons encode_Nil regex_space_def JS_WHITESPACE_def)

text \<open>
  Claim C2, as the code has it. For a response event type \<open>getTopicFilter\<close> checks nothing
  and rejects nothing: the event segment of the pattern is the prefix of the event type
  followed by the encoding of the event filter, which is empty when no filter, or an empty
  one, is supplied.
\<close>

theorem response_filter_pattern:
  assumes "et \<in> {Resolve, Retrieve, Complete, Return}"
  shows "\<exists>p. getEventTopicComponentPrefix et = Some p \<and> length p = 3 \<and>
             getTopicFilter v nsp et f corr =
               PROTOCOL_NAME @ [DOT] @ number_toString v @ [DOT] @
               (case nsp of None \<Rightarrow> [] | Some ns \<Rightarrow> encodeTopicComponent ns) @ [DOT] @
               p @ (case f of None \<Rightarrow> [] | Some f \<Rightarrow> encodeTopicComponent f) @
               [DOT, DOT] @ (case corr of None \<Rightarrow> [] | Some c \<Rightarrow> c)"
proof -
  from assms have "et \<notin> {Raw, OneWay, TwoWay}" by auto
  from prefix_table [OF this] obtain p where
    p: "getEventTopicComponentPrefix et = Some p" "length p = 3" by blast
  from assms have tw: "\<not> isOneWayEvent et" by (auto simp: isOneWayEvent_def)
  have "getTopicFilter v nsp et f corr =
               PROTOCOL_NAME @ [DOT] @ number_toString v @ [DOT] @
               (case nsp of None \<Rightarrow> [] | Some ns \<Rightarrow> encodeTopicComponent ns) @ [DOT] @
               p @ (case f of None \<Rightarrow> [] | Some f \<Rightarrow> encodeTopicComponent f) @
               [DOT, DOT] @ (case corr of None \<Rightarrow> [] | Some c \<Rightarrow> c)"
    using p(1) tw
    by (simp add: getTopicFilter_def Let_def js_str_def encode_Nil split: option.splits)
  with p show ?thesis by blast
qed

theorem response_filter_pattern_witness:
  "\<exists>p. getEventTopicComponentPrefix Return = Some p \<and> length p = 3 \<and>
       getTopicFilter 1 (Some (ascii ''ns'')) Return None (Some (ascii ''c'')) =
         PROTOCOL_NAME @ [DOT] @ number_toString 1 @ [DOT] @ encodeTopicComponent (ascii ''ns'') @
         [DOT] @ p @ [DOT, DOT] @ ascii ''c''"
  using response_filter_pattern [where et = Return and v = 1
      and nsp = "Some (ascii ''ns'')" and f = None
      and corr = "Some (ascii ''c'')"]
  by simp

text \<open>
  The claim C2 as it is stated, that an event filter supplied for a response event type is
  rejected, fails: for Resolve with the filter \<open>f\<close> the pattern holds the segment
  \<open>RSVf\<close>.
\<close>

theorem response_filter_counterexample:
  "getTopicFilter 1 (Some (ascii ''ns'')) Resolve (Some (ascii ''f'')) (Some (ascii ''c'')) =
     ascii ''coaty.1.ns.RSVf..c''"
  by (simp add: getTopicFilter_def Let_def getEventTopicComponentPrefix_def Map_get_def
      TOPIC_COMPONENTS_BY_EVENT_TYPE_def EVENT_TYPE_TOPIC_COMPONENTS_def js_str_def
      PROTOCOL_NAME_def number_toString_def decimal.simps isOneWayEvent_def ascii_def
      encode_Cons encode_Nil regex_space_def JS_WHITESPACE_def)

section \<open>Properties of the binding\<close>

lemma and_then_Done [simp]: "and_then (Done s) f = f s"
  by (simp add: and_then_def)

lemma and_then_Thrown [simp]: "and_then (Thrown e s) f = Thrown e s"
  by (simp add: and_then_def)

lemma frame_and_then:
  assumes "P (state_of m)" and "\<And>s'. P s' \<Longrightarrow> P (state_of (k s'))"
  shows "P (state_of (and_then m k))"
  using assms by (cases m) simp_all

lemma record_refresh:
  "s\<lparr>calls := calls s, pendingPublicationItems := pendingPublicationItems s\<rparr> = (s :: 'p WampBinding)"
  by simp

lemma drain_prefix:
  assumes "connection_isOpen s"
    and "pendingPublicationItems s = pre @ rest"
    and "\<forall>k<length pre. r (calls s @ map publish_call (take k pre)) (publish_call (pre ! k))
            \<in> {NoPromise, Resolves}"
    and "doDrainPublications r
           (s\<lparr>calls := calls s @ map publish_call pre, pendingPublicationItems := rest\<rparr>) = Done s'"
  shows "doDrainPublications r s = Done s'"
  using assms
proof (induction pre arbitrary: s)
  case Nil
  from Nil.prems(2) have "rest = pendingPublicationItems s" by simp
  then have "s\<lparr>calls := calls s @ map publish_call [], pendingPublicationItems := rest\<rparr> = s"
    by simp
  with Nil.prems(4) show ?case by simp
next
  case (Cons p ps)
  let ?s1 = "s\<lparr>calls := calls s @ [publish_call p], pendingPublicationItems := ps @ rest\<rparr>"
  from Cons.prems(3) have r0: "r (calls s) (publish_call p) \<in> {NoPromise, Resolves}" by force
  have open1: "connection_isOpen ?s1" using Cons.prems(1) by (simp add: connection_isOpen_def)
  have step: "\<forall>k<length ps. r (calls ?s1 @ map publish_call (take k ps)) (publish_call (ps ! k))
            \<in> {NoPromise, Resolves}"
  proof (intro allI impI)
    fix k assume "k < length ps"
    then have "Suc k < length (p # ps)" by simp
    with Cons.prems(3) have "r (calls s @ map publish_call (take (Suc k) (p # ps))) (publish_call ((p # ps) ! Suc k))
            \<in> {NoPromise, Resolves}" by blast
    then show "r (calls ?s1 @ map publish_call (take k ps)) (publish_call (ps ! k)) \<in> {NoPromise, Resolves}"
      by simp
  qed
  have fin: "doDrainPublications r (?s1\<lparr>calls := calls ?s1 @ map publish_call ps, pendingPublicationItems := rest\<rparr>) = Done s'"
    using Cons.prems(4) by simp
  have next1: "doDrainPublications r ?s1 = Done s'"
    by (rule Cons.IH [OF open1 _ step fin]) simp
  show ?case
    using Cons.prems(1,2) r0 next1
    by (subst doDrainPublications.simps) auto
qed

lemma drain_empty:
  "pendingPublicationItems s = [] \<Longrightarrow>
   doDrainPublications r s = Done (s\<lparr>isPublishingDeferred := True\<rparr>)"
  by (subst doDrainPublications.simps) simp

lemma drain_reject:
  assumes "connection_isOpen s" "pendingPublicationItems s = item # rest"
    and "r (calls s) (publish_call item) = Rejects"
  shows "doDrainPublications r s =
     Done (s\<lparr>calls := calls s @ [publish_call item], isPublishingDeferred := True\<rparr>)"
  using assms by (subst doDrainPublications.simps) simp

lemma getTopicFor_options: "options s' = options s \<Longrightarrow> getTopicFor s' e = getTopicFor s e"
  by (simp add: getTopicFor_def)

lemma getTopicFor_pending [simp]:
  "getTopicFor (s\<lparr>pendingPublicationItems := q\<rparr>) e = getTopicFor s e"
  by (simp add: getTopicFor_def)

lemma addPublicationItem_back:
  assumes "getTopicFor s e = Inr t"
  shows "addPublicationItem e False False s =
     Done (s\<lparr>pendingPublicationItems := pendingPublicationItems s @ [publicationItem t e]\<rparr>)"
  using assms by (simp add: addPublicationItem_def)

lemma addPublicationItem_front_fresh:
  assumes "getTopicFor s e = Inr t" "t \<notin> pub_topic ` set (pendingPublicationItems s)"
  shows "addPublicationItem e True True s =
     Done (s\<lparr>pendingPublicationItems := publicationItem t e # pendingPublicationItems s\<rparr>)"
  using assms by (auto simp add: addPublicationItem_def list_ex_iff)

lemma addPublicationItem_front_queued:
  assumes "getTopicFor s e = Inr t" "t \<in> pub_topic ` set (pendingPublicationItems s)"
  shows "addPublicationItem e True True s = Done s"
  using assms by (auto simp add: addPublicationItem_def list_ex_iff)

lemma drain_all:
  assumes "connection_isOpen s" "isPublishingDeferred s"
    and "\<forall>h c. r h c \<in> {NoPromise, Resolves}"
  shows "drainPublications r s =
     Done (s\<lparr>calls := calls s @ map publish_call (pendingPublicationItems s),
             pendingPublicationItems := []\<rparr>)"
proof -
  let ?s0 = "s\<lparr>isPublishingDeferred := False\<rparr>"
  have fin: "doDrainPublications r
      (?s0\<lparr>calls := calls ?s0 @ map publish_call (pendingPublicationItems s),
            pendingPublicationItems := []\<rparr>) =
     Done (s\<lparr>calls := calls s @ map publish_call (pendingPublicationItems s),
             pendingPublicationItems := []\<rparr>)"
    using assms(2) by (simp add: drain_empty)
  have "doDrainPublications r ?s0 =
     Done (s\<lparr>calls := calls s @ map publish_call (pendingPublicationItems s),
             pendingPublicationItems := []\<rparr>)"
    by (rule drain_prefix [where pre = "pendingPublicationItems s" and rest = "[]"])
      (use assms fin in \<open>simp_all add: connection_isOpen_def\<close>)
  with assms(2) show ?thesis by (simp add: drainPublications_def)
qed

lemma getTopicFor_raw [simp]: "getTopicFor s (raw_event t d) = Inr (Some (ascii t))"
  by (simp add: getTopicFor_def raw_event_def)

lemma joined_binding_fields [simp]:
  "connection_isOpen (joined_binding opts jo)"
  "isPublishingDeferred (joined_binding opts jo)"
  "pendingPublicationItems (joined_binding opts jo) = []"
  "issuedSubscriptionItems (joined_binding opts jo) = []"
  "calls (joined_binding opts jo) = [ConnectionOpen]"
  "emitted (joined_binding opts jo) = [Offline]"
  "joinOptions (joined_binding opts jo) = Some jo"
  "options (joined_binding opts jo) = opts"
  "connection (joined_binding opts jo) = Some \<lparr> isConnected = True, isOpen = True \<rparr>"
  by (simp_all add: joined_binding_def transport_opened_def onJoin_def initial_binding_def
      onInit_def reset_def resetSession_def emit_def connection_isOpen_def)

lemma addJoinEvents_fresh:
  assumes "i \<le> length evs"
    and "map (getTopicFor s) evs = map Inr ts"
    and "distinct ts"
    and "\<forall>k<i. ts ! k \<notin> pub_topic ` set (pendingPublicationItems s)"
  shows "addJoinEvents evs i s =
     Done (s\<lparr>pendingPublicationItems :=
             map2 publicationItem (take i ts) (take i evs) @ pendingPublicationItems s\<rparr>)"
  using assms
proof (induction i arbitrary: s)
  case 0
  then show ?case by simp
next
  case (Suc i)
  from Suc.prems(2) have len: "length ts = length evs"
    by (metis length_map)
  from Suc.prems(1) have i: "i < length evs" "i < length ts" using len by simp_all
  from Suc.prems(2) i have ti: "getTopicFor s (evs ! i) = Inr (ts ! i)"
    by (metis nth_map len)
  let ?s1 = "s\<lparr>pendingPublicationItems := publicationItem (ts ! i) (evs ! i) # pendingPublicationItems s\<rparr>"
  have add: "addPublicationItem (evs ! i) True True s = Done ?s1"
    using ti Suc.prems(4) by (intro addPublicationItem_front_fresh) auto
  have fresh1: "\<forall>k<i. ts ! k \<notin> pub_topic ` set (pendingPublicationItems ?s1)"
  proof (intro allI impI)
    fix k assume k: "k < i"
    with Suc.prems(3) i have "ts ! k \<noteq> ts ! i" by (simp add: nth_eq_iff_index_eq)
    moreover from k Suc.prems(4) have "ts ! k \<notin> pub_topic ` set (pendingPublicationItems s)" by simp
    ultimately show "ts ! k \<notin> pub_topic ` set (pendingPublicationItems ?s1)"
      by (simp add: publicationItem_def)
  qed
  have "getTopicFor ?s1 = getTopicFor s" by (rule ext) simp
  with Suc.prems(2) have topics1: "map (getTopicFor ?s1) evs = map Inr ts" by simp
  have ih: "addJoinEvents evs i ?s1 =
     Done (?s1\<lparr>pendingPublicationItems :=
             map2 publicationItem (take i ts) (take i evs) @ pendingPublicationItems ?s1\<rparr>)"
    by (rule Suc.IH [OF _ topics1 Suc.prems(3) fresh1]) (use i in simp)
  have tk: "take (Suc i) ts = take i ts @ [ts ! i]" "take (Suc i) evs = take i evs @ [evs ! i]"
    using i by (simp_all add: take_Suc_conv_app_nth)
  show ?case using add ih i by (simp add: tk)
qed

lemma getTopicFor_advertise:
  assumes "opt_namespace (options s) = Some (ascii ''ns'')"
  shows "getTopicFor s (advertise_event ''Identity'' ''src1'' d) =
           Inr (Some (ascii ''coaty.1.ns.ADVIdentity.src1''))"
    and "getTopicFor s (advertise_event ''Device'' ''src1'' d) =
           Inr (Some (ascii ''coaty.1.ns.ADVDevice.src1''))"
    and "getTopicFor s (advertise_event ''User'' ''src1'' d) =
           Inr (Some (ascii ''coaty.1.ns.ADVUser.src1''))"
  using assms
  by (simp_all add: getTopicFor_def advertise_event_def getTopicName_def Let_def
      getEventTopicComponentPrefix_def Map_get_def TOPIC_COMPONENTS_BY_EVENT_TYPE_def
      EVENT_TYPE_TOPIC_COMPONENTS_def js_str_def PROTOCOL_NAME_def apiVersion_def
      number_toString_def decimal.simps isOneWayEvent_def ascii_def encode_Cons encode_Nil
      regex_space_def JS_WHITESPACE_def)

lemma example_namespace [simp]: "opt_namespace example_options = Some (ascii ''ns'')"
  by (simp add: example_options_def)

lemma publicationItem_fields [simp]:
  "pub_topic (publicationItem t e) = t"
  "pub_payload (publicationItem t e) = ev_data e"
  by (simp_all add: publicationItem_def)

lemma event_data [simp]:
  "ev_data (advertise_event f src d) = d"
  "ev_data (raw_event t d) = d"
  by (simp_all add: advertise_event_def raw_event_def)

lemma findIndex_None: "findIndex P xs = None \<longleftrightarrow> (\<forall>x\<in>set xs. \<not> P x)"
  by (induction xs) auto

lemma findIndex_Some: "findIndex P xs = Some i \<Longrightarrow> i < length xs \<and> P (xs ! i)"
proof (induction xs arbitrary: i)
  case Nil
  then show ?case by simp
next
  case (Cons x xs)
  then show ?case by (cases "P x") auto
qed

lemma predicate_key: "subscriptionItemPredicate et t m item \<longleftrightarrow> sub_key item = (et, t, m)"
  by (auto simp: subscriptionItemPredicate_def sub_key_def)

lemma predicate_item_key:
  "subscriptionItemPredicate (sub_eventType x) (sub_topic x) (sub_match x) = (\<lambda>i. sub_key i = sub_key x)"
  by (rule ext) (auto simp: subscriptionItemPredicate_def sub_key_def)

lemma subscriptionItem_key:
  "(ev_eventType e, getTopicFilterFor s e) = sub_key (subscriptionItem s e)"
  by (simp add: subscriptionItem_def sub_key_def split: prod.splits)

lemma session_call_issued [simp]:
  "issuedSubscriptionItems (state_of (session_call r c s)) = issuedSubscriptionItems s"
  "options (state_of (session_call r c s)) = options s"
  by (simp_all add: session_call_def)

lemma subscribe_issued [simp]:
  "issuedSubscriptionItems (state_of (subscribe r item s)) = issuedSubscriptionItems s"
  "options (state_of (subscribe r item s)) = options s"
  by (simp_all add: subscribe_def)

lemma unsubscribe_issued [simp]:
  "issuedSubscriptionItems (state_of (unsubscribe r item s)) = issuedSubscriptionItems s"
  "options (state_of (unsubscribe r item s)) = options s"
  by (simp_all add: unsubscribe_def split: option.splits)

lemma and_then_unsubscribe_issued [simp]:
  "issuedSubscriptionItems (state_of (and_then m (unsubscribe r item))) = issuedSubscriptionItems (state_of m)"
  "options (state_of (and_then m (unsubscribe r item))) = options (state_of m)"
  by (cases m; simp)+

lemma addSubscriptionItem_issued:
  "issuedSubscriptionItems (state_of (addSubscriptionItem r e s)) =
     (case findIndex (\<lambda>i. sub_key i = sub_key (subscriptionItem s e)) (issuedSubscriptionItems s) of
        None \<Rightarrow> issuedSubscriptionItems s @ [subscriptionItem s e]
      | Some i \<Rightarrow> (issuedSubscriptionItems s)[i := subscriptionItem s e])"
  by (simp add: addSubscriptionItem_def Let_def predicate_item_key split: option.splits)

lemma addSubscriptionItem_options [simp]:
  "options (state_of (addSubscriptionItem r e s)) = options s"
  by (simp add: addSubscriptionItem_def Let_def split: option.splits)

lemma removeSubscriptionItem_issued:
  "issuedSubscriptionItems (state_of (removeSubscriptionItem r e s)) =
     (case findIndex (\<lambda>i. sub_key i = sub_key (subscriptionItem s e)) (issuedSubscriptionItems s) of
        None \<Rightarrow> issuedSubscriptionItems s
      | Some i \<Rightarrow> take i (issuedSubscriptionItems s) @ drop (Suc i) (issuedSubscriptionItems s))"
proof -
  obtain t m where tm: "getTopicFilterFor s e = (t, m)" by (cases "getTopicFilterFor s e")
  then have k: "sub_key (subscriptionItem s e) = (ev_eventType e, t, m)"
    using subscriptionItem_key [of e s] by simp
  have "subscriptionItemPredicate (ev_eventType e) t m = (\<lambda>i. sub_key i = sub_key (subscriptionItem s e))"
    by (rule ext) (simp add: predicate_key k)
  then show ?thesis
    by (simp add: removeSubscriptionItem_def tm split: option.splits)
qed

lemma subscriptionItem_options:
  "options s' = options s \<Longrightarrow> subscriptionItem s' e = subscriptionItem s e"
  by (simp add: subscriptionItem_def getTopicFilterFor_def)

lemma filter_key_distinct:
  "distinct (map f xs) \<Longrightarrow> x \<in> set xs \<Longrightarrow> filter (\<lambda>y. f y = f x) xs = [x]"
proof (induction xs)
  case Nil
  then show ?case by simp
next
  case (Cons a xs)
  show ?case
  proof (cases "a = x")
    case True
    with Cons.prems(1) have "\<forall>y\<in>set xs. f y \<noteq> f x" by (metis distinct.simps(2) image_eqI list.simps(9) set_map)
    then have "filter (\<lambda>y. f y = f x) xs = []" by (simp add: filter_empty_conv)
    with True show ?thesis by simp
  next
    case False
    with Cons.prems have x: "x \<in> set xs" and "f a \<noteq> f x" by auto
    with Cons show ?thesis by simp
  qed
qed

lemma add_keeps_distinct:
  assumes "distinct (map sub_key xs)"
  shows "distinct (map sub_key
     (case findIndex (\<lambda>i. sub_key i = sub_key x) xs of
        None \<Rightarrow> xs @ [x] | Some i \<Rightarrow> xs[i := x]))"
proof (cases "findIndex (\<lambda>i. sub_key i = sub_key x) xs")
  case None
  then have "sub_key x \<notin> sub_key ` set xs" by (auto simp: findIndex_None)
  with assms None show ?thesis by simp
next
  case (Some i)
  from findIndex_Some [OF Some] have i: "i < length xs" "sub_key (xs ! i) = sub_key x" by simp_all
  then have "map sub_key (xs[i := x]) = map sub_key xs"
    by (simp add: map_update list_update_same_conv)
  with assms Some show ?thesis by simp
qed

lemma add_member:
  "x \<in> set (case findIndex (\<lambda>i. sub_key i = sub_key x) xs of
        None \<Rightarrow> xs @ [x] | Some i \<Rightarrow> xs[i := x])"
proof (cases "findIndex (\<lambda>i. sub_key i = sub_key x) xs")
  case None
  then show ?thesis by simp
next
  case (Some i)
  from findIndex_Some [OF Some] show ?thesis using Some by (simp add: set_update_memI)
qed

lemma remove_keeps_distinct:
  "distinct (map f xs) \<Longrightarrow> distinct (map f (take i xs @ drop (Suc i) xs))"
proof (induction xs arbitrary: i)
  case Nil
  then show ?case by simp
next
  case (Cons a xs)
  show ?case
  proof (cases i)
    case 0
    with Cons.prems show ?thesis by simp
  next
    case (Suc j)
    from Cons.prems have a: "f a \<notin> f ` set xs" and d: "distinct (map f xs)" by simp_all
    have "set (take j xs @ drop (Suc j) xs) \<subseteq> set xs"
      using set_take_subset [of j xs] set_drop_subset [of "Suc j" xs] by auto
    with a have "f a \<notin> f ` set (take j xs @ drop (Suc j) xs)" by blast
    with Cons.IH [OF d, of j] Suc show ?thesis by auto
  qed
qed

lemma addSubscriptionItem_replace:
  assumes "findIndex (\<lambda>i. sub_key i = sub_key (subscriptionItem s e)) (issuedSubscriptionItems s) = Some i"
    and "sub_subscription (issuedSubscriptionItems s ! i) = Some h"
    and "connection s = Some c"
    and "\<forall>hist call. r hist call \<noteq> Throws"
  shows "addSubscriptionItem r e s =
     Done (s\<lparr>issuedSubscriptionItems := (issuedSubscriptionItems s)[i := subscriptionItem s e],
             calls := calls s @
               (if isOpen c
                then [subscribe_call (subscriptionItem s e)]
                else []) @
               [Unsubscribe h]\<rparr>)"
  using assms
  by (simp add: addSubscriptionItem_def Let_def predicate_item_key subscribe_def
      connection_isOpen_def session_call_def unsubscribe_def)

lemma getTopicFilterFor_raw [simp]:
  "getTopicFilterFor s (raw_event t d) = (Some (ascii t), ascii ''exact'')"
  by (simp add: getTopicFilterFor_def raw_event_def)

lemma subscriptionItem_raw:
  "subscriptionItem s (raw_event t d) =
     \<lparr> sub_eventType = Raw, sub_topic = Some (ascii t), sub_match = ascii ''exact'',
       sub_isKwargsPayload = False, sub_subscription = None \<rparr>"
  by (simp add: subscriptionItem_def isKwargsPayloadOf_def) (simp add: raw_event_def)

lemma session_call_emitted [simp]: "emitted (state_of (session_call r c s)) = emitted s"
  by (simp add: session_call_def)

lemma subscribe_emitted [simp]: "emitted (state_of (subscribe r item s)) = emitted s"
  by (simp add: subscribe_def)

lemma subscribeItems_emitted [simp]: "emitted (state_of (subscribeItems r items s)) = emitted s"
proof (induction items arbitrary: s)
  case Nil
  then show ?case by simp
next
  case (Cons item items)
  show ?case
    by (cases "subscribe r item s") (use Cons subscribe_emitted [of r item s] in auto)
qed

lemma addSessionTestaments_emitted [simp]:
  "emitted (state_of (addSessionTestaments r s)) = emitted s"
proof -
  have "emitted (state_of (and_then (session_call r c1 s) (session_call r c2))) = emitted s" for c1 c2
    by (rule frame_and_then [where P = "\<lambda>s'. emitted s' = emitted s"]) simp_all
  then show ?thesis
    by (simp add: addSessionTestaments_def Let_def split: option.splits sum.splits)
qed

lemma addPublicationItem_emitted [simp]:
  "emitted (state_of (addPublicationItem e f o1 s)) = emitted s"
  by (simp add: addPublicationItem_def split: sum.splits)

lemma addJoinEvents_emitted [simp]: "emitted (state_of (addJoinEvents evs i s)) = emitted s"
proof (induction i arbitrary: s)
  case 0
  then show ?case by simp
next
  case (Suc i)
  show ?case
    by (cases "addPublicationItem (evs ! i) True True s")
      (use Suc addPublicationItem_emitted [of "evs ! i" True True s] in auto)
qed

lemma doDrainPublications_emitted [simp]:
  "emitted (state_of (doDrainPublications r s)) = emitted s"
proof (induction r s rule: doDrainPublications.induct)
  case (1 r s)
  show ?case
  proof (cases "\<not> connection_isOpen s \<or> pendingPublicationItems s = []")
    case True
    then show ?thesis by (subst doDrainPublications.simps) auto
  next
    case False
    let ?s1 = "s\<lparr>calls := calls s @ [publish_call (hd (pendingPublicationItems s))],
                  pendingPublicationItems := tl (pendingPublicationItems s)\<rparr>"
    show ?thesis
    proof (cases "r (calls s) (publish_call (hd (pendingPublicationItems s)))")
      case Throws
      with False show ?thesis by (subst doDrainPublications.simps) auto
    next
      case NoPromise
      with False "1.IH"(1) have "emitted (state_of (doDrainPublications r ?s1)) = emitted s" by simp
      with False NoPromise show ?thesis by (subst doDrainPublications.simps) auto
    next
      case Resolves
      with False "1.IH"(2) have "emitted (state_of (doDrainPublications r ?s1)) = emitted s" by simp
      with False Resolves show ?thesis
        by (subst doDrainPublications.simps) (cases "doDrainPublications r ?s1"; auto)
    next
      case Rejects
      with False show ?thesis by (subst doDrainPublications.simps) auto
    qed
  qed
qed

lemma drainPublications_emitted [simp]:
  "emitted (state_of (drainPublications r s)) = emitted s"
  by (simp add: drainPublications_def)

lemma resetSession_emitted [simp]: "emitted (resetSession s) = emitted s @ [Offline]"
  by (simp add: resetSession_def emit_def)

lemma reset_emitted [simp]: "emitted (reset s) = emitted s @ [Offline]"
  by (simp add: reset_def)

lemma onopen_try_emitted:
  "emitted (state_of (onopen_try r sid s)) =
     emitted s @ (if connection s = None then [] else [Online])"
proof (cases "connection s")
  case None
  then show ?thesis by (simp add: onopen_try_def)
next
  case (Some c)
  let ?s1 = "emit Online (s\<lparr>sessionIdLogItem := ascii ''['' @ number_toString sid @ ascii ''] ''\<rparr>)"
  let ?P = "\<lambda>s'. emitted s' = emitted s @ [Online]"
  have tail: "?P (state_of (case joinOptions s3 of
                           None \<Rightarrow> Thrown TypeError s3
                         | Some jo \<Rightarrow>
                             and_then (addJoinEvents (joinEvents jo) (length (joinEvents jo)) s3)
                               (drainPublications r)))" if "?P s3" for s3
  proof (cases "joinOptions s3")
    case None
    with that show ?thesis by simp
  next
    case (Some jo)
    have "?P (state_of (and_then (addJoinEvents (joinEvents jo) (length (joinEvents jo)) s3)
                               (drainPublications r)))"
      by (rule frame_and_then) (use that in simp_all)
    with Some show ?thesis by simp
  qed
  have mid: "?P (state_of (and_then (subscribeItems r (issuedSubscriptionItems s2) s2)
                  (\<lambda>s3. case joinOptions s3 of
                           None \<Rightarrow> Thrown TypeError s3
                         | Some jo \<Rightarrow>
                             and_then (addJoinEvents (joinEvents jo) (length (joinEvents jo)) s3)
                               (drainPublications r))))" if "?P s2" for s2
    by (rule frame_and_then) (use that tail in simp_all)
  have "?P (state_of (and_then (addSessionTestaments r ?s1)
               (\<lambda>s2. and_then (subscribeItems r (issuedSubscriptionItems s2) s2)
                  (\<lambda>s3. case joinOptions s3 of
                           None \<Rightarrow> Thrown TypeError s3
                         | Some jo \<Rightarrow>
                             and_then (addJoinEvents (joinEvents jo) (length (joinEvents jo)) s3)
                               (drainPublications r)))))"
    by (rule frame_and_then) (use mid in \<open>simp_all add: emit_def\<close>)
  with Some show ?thesis by (simp add: onopen_try_def Let_def)
qed

lemma connection_onopen_emitted:
  "emitted (connection_onopen r sid s) =
     emitted s @ (if connection s = None then [] else [Online]) @
     (case onopen_try r sid s of Done s' \<Rightarrow> [] | Thrown e s' \<Rightarrow> [Offline])"
  using onopen_try_emitted [of r sid s]
  by (cases "onopen_try r sid s") (simp_all add: connection_onopen_def)

lemma connection_onclose_emitted:
  "emitted (connection_onclose reason s) = emitted s @ [Offline]"
  by (cases reason) (simp_all add: connection_onclose_def)

lemma subscribeItems_open:
  assumes "connection_isOpen s" "\<forall>h c. r h c \<noteq> Throws"
  shows "subscribeItems r items s = Done (s\<lparr>calls := calls s @ map subscribe_call items\<rparr>)"
  using assms
proof (induction items arbitrary: s)
  case Nil
  then show ?case by simp
next
  case (Cons item items)
  let ?s1 = "s\<lparr>calls := calls s @ [subscribe_call item]\<rparr>"
  have 1: "subscribe r item s = Done ?s1"
    using Cons.prems by (simp add: subscribe_def session_call_def)
  have "connection_isOpen ?s1" using Cons.prems(1) by (simp add: connection_isOpen_def)
  from Cons.IH [OF this Cons.prems(2)] 1 show ?case by simp
qed

lemma addSessionTestaments_ok:
  assumes "joinOptions s = Some jo" "getTopicFor s (unjoinEvent jo) = Inr ut"
    and "\<forall>h c. r h c \<noteq> Throws"
  shows "addSessionTestaments r s =
     Done (s\<lparr>calls := calls s @ [AddTestament ut (ev_data (unjoinEvent jo)) destroyed,
                                  AddTestament ut (ev_data (unjoinEvent jo)) detached]\<rparr>)"
  using assms by (simp add: addSessionTestaments_def Let_def session_call_def)

lemma addJoinEvents_prefix:
  assumes "i \<le> length evs" "\<forall>k<i. \<exists>t. getTopicFor s (evs ! k) = Inr t"
  shows "\<exists>js. addJoinEvents evs i s =
           Done (s\<lparr>pendingPublicationItems := js @ pendingPublicationItems s\<rparr>)"
  using assms
proof (induction i arbitrary: s)
  case 0
  have "s = s\<lparr>pendingPublicationItems := [] @ pendingPublicationItems s\<rparr>" by simp
  then show ?case by (metis addJoinEvents.simps(1))
next
  case (Suc i)
  from Suc.prems(2) obtain t where t: "getTopicFor s (evs ! i) = Inr t" by blast
  show ?case
  proof (cases "t \<in> pub_topic ` set (pendingPublicationItems s)")
    case True
    have add: "addPublicationItem (evs ! i) True True s = Done s"
      using t True by (rule addPublicationItem_front_queued)
    from Suc.IH [of s] Suc.prems obtain js where
      "addJoinEvents evs i s = Done (s\<lparr>pendingPublicationItems := js @ pendingPublicationItems s\<rparr>)"
      by auto
    with add show ?thesis by auto
  next
    case False
    let ?s1 = "s\<lparr>pendingPublicationItems := publicationItem t (evs ! i) # pendingPublicationItems s\<rparr>"
    have add: "addPublicationItem (evs ! i) True True s = Done ?s1"
      using t False by (rule addPublicationItem_front_fresh)
    have "\<forall>k<i. \<exists>t. getTopicFor ?s1 (evs ! k) = Inr t" using Suc.prems(2) by simp
    from Suc.IH [OF _ this] Suc.prems(1) obtain js where
      "addJoinEvents evs i ?s1 = Done (?s1\<lparr>pendingPublicationItems := js @ pendingPublicationItems ?s1\<rparr>)"
      by auto
    then have "addJoinEvents evs i ?s1 =
        Done (s\<lparr>pendingPublicationItems := (js @ [publicationItem t (evs ! i)]) @ pendingPublicationItems s\<rparr>)"
      by simp
    with add show ?thesis by (simp del: append_assoc) blast
  qed
qed

lemma onopen_replay:
  assumes c: "connection s = Some c" "isOpen c"
    and jo: "joinOptions s = Some jo"
    and ut: "getTopicFor s (unjoinEvent jo) = Inr ut"
    and evs: "\<forall>e\<in>set (joinEvents jo). \<exists>t. getTopicFor s e = Inr t"
    and armed: "isPublishingDeferred s"
    and r: "\<forall>h c. r h c \<in> {NoPromise, Resolves}"
  shows "\<exists>js. onopen_try r sid s = Done (connection_onopen r sid s) \<and>
     connection_onopen r sid s =
     s\<lparr>sessionIdLogItem := ascii ''['' @ number_toString sid @ ascii ''] '',
       emitted := emitted s @ [Online],
       calls := calls s @
         [AddTestament ut (ev_data (unjoinEvent jo)) destroyed,
          AddTestament ut (ev_data (unjoinEvent jo)) detached] @
         map subscribe_call (issuedSubscriptionItems s) @
         map publish_call js @ map publish_call (pendingPublicationItems s),
       pendingPublicationItems := []\<rparr>"
proof -
  have nothrow: "\<forall>h c. r h c \<noteq> Throws"
  proof (intro allI)
    fix h c from r have "r h c \<in> {NoPromise, Resolves}" by blast
    then show "r h c \<noteq> Throws" by auto
  qed
  let ?s1 = "emit Online (s\<lparr>sessionIdLogItem := ascii ''['' @ number_toString sid @ ascii ''] ''\<rparr>)"
  let ?T = "[AddTestament ut (ev_data (unjoinEvent jo)) destroyed,
             AddTestament ut (ev_data (unjoinEvent jo)) detached]"
  let ?s2 = "?s1\<lparr>calls := calls s @ ?T\<rparr>"
  let ?s3 = "?s2\<lparr>calls := calls s @ ?T @ map subscribe_call (issuedSubscriptionItems s)\<rparr>"
  have g1: "getTopicFor ?s1 e = getTopicFor s e" for e
    by (rule getTopicFor_options) (simp add: emit_def)
  have t: "addSessionTestaments r ?s1 = Done ?s2"
    using addSessionTestaments_ok [of ?s1 jo ut r] jo ut nothrow
    by (simp add: g1) (simp add: emit_def)
  have open2: "connection_isOpen ?s2" using c by (simp add: connection_isOpen_def emit_def)
  have sub: "subscribeItems r (issuedSubscriptionItems ?s2) ?s2 = Done ?s3"
    using subscribeItems_open [OF open2 nothrow, of "issuedSubscriptionItems ?s2"]
    by (simp add: emit_def)
  have g3: "getTopicFor ?s3 e = getTopicFor s e" for e
    by (rule getTopicFor_options) (simp add: emit_def)
  have "\<forall>k<length (joinEvents jo). \<exists>t. getTopicFor ?s3 (joinEvents jo ! k) = Inr t"
    unfolding g3 using evs by (metis nth_mem)
  from addJoinEvents_prefix [OF le_refl this] obtain js where
    js: "addJoinEvents (joinEvents jo) (length (joinEvents jo)) ?s3 =
      Done (?s3\<lparr>pendingPublicationItems := js @ pendingPublicationItems ?s3\<rparr>)" by blast
  let ?s4 = "?s3\<lparr>pendingPublicationItems := js @ pendingPublicationItems s\<rparr>"
  have js': "addJoinEvents (joinEvents jo) (length (joinEvents jo)) ?s3 = Done ?s4"
    using js by (simp add: emit_def)
  have open4: "connection_isOpen ?s4" "isPublishingDeferred ?s4"
    using c armed by (simp_all add: connection_isOpen_def emit_def)
  have dr: "drainPublications r ?s4 =
     Done (?s4\<lparr>calls := calls ?s4 @ map publish_call (pendingPublicationItems ?s4),
             pendingPublicationItems := []\<rparr>)"
    by (rule drain_all [OF open4 r])
  have jo3: "joinOptions ?s3 = Some jo" using jo by (simp add: emit_def)
  have dn: "onopen_try r sid s =
     Done (?s4\<lparr>calls := calls ?s4 @ map publish_call (pendingPublicationItems ?s4),
             pendingPublicationItems := []\<rparr>)"
    unfolding onopen_try_def Let_def using c(1) t sub jo3 js' dr
    by (simp add: emit_def)
  then have eq: "connection_onopen r sid s =
     ?s4\<lparr>calls := calls ?s4 @ map publish_call (pendingPublicationItems ?s4),
             pendingPublicationItems := []\<rparr>"
    by (simp add: connection_onopen_def)
  then have "connection_onopen r sid s =
     s\<lparr>sessionIdLogItem := ascii ''['' @ number_toString sid @ ascii ''] '',
       emitted := emitted s @ [Online],
       calls := calls s @ ?T @ map subscribe_call (issuedSubscriptionItems s) @
         map publish_call js @ map publish_call (pendingPublicationItems s),
       pendingPublicationItems := []\<rparr>"
    by (simp add: emit_def)
  moreover from dn eq have "onopen_try r sid s = Done (connection_onopen r sid s)" by simp
  ultimately show ?thesis by blast
qed

lemma onopen_try_no_connection:
  "connection s = None \<Longrightarrow> \<exists>s'. onopen_try r sid s = Thrown TypeError s'"
  by (simp add: onopen_try_def)

lemma onclose_lost_fields:
  "pendingPublicationItems (connection_onclose lost s) = pendingPublicationItems s"
  "issuedSubscriptionItems (connection_onclose lost s) =
     map (\<lambda>i. i\<lparr>sub_subscription := None\<rparr>) (issuedSubscriptionItems s)"
  "joinOptions (connection_onclose lost s) = joinOptions s"
  "connection (connection_onclose lost s) = connection s"
  "isPublishingDeferred (connection_onclose lost s) = isPublishingDeferred s"
  "options (connection_onclose lost s) = options s"
  "calls (connection_onclose lost s) = calls s"
  by (simp_all add: connection_onclose_def resetSession_def emit_def)

lemma onclose_reset_fields:
  assumes "reason \<noteq> lost"
  shows "pendingPublicationItems (connection_onclose reason s) = []"
    "issuedSubscriptionItems (connection_onclose reason s) = []"
    "joinOptions (connection_onclose reason s) = None"
    "connection (connection_onclose reason s) = None"
  using assms by (cases reason; simp add: connection_onclose_def reset_def resetSession_def emit_def)+

lemma publish_call_raw:
  "publish_call (publicationItem t (raw_event n (d::'p))) = Publish t [d] EmptyObject False False"
  by (simp add: publish_call_def publicationItem_def raw_event_def isKwargsPayloadOf_def
      option_flag_def)

text \<open>A close reported as \<open>unreachable\<close> resets the binding as well, the field
  \<open>_connection\<close> included; an \<open>onopen\<close> of the same connection that follows, after a
  retry of the transport, raises on the undefined field and resets again: it emits Offline
  and makes no call.\<close>

lemma onopen_after_unreachable:
  "emitted (connection_onopen r sid (transport_opened (connection_onclose unreachable s))) =
     emitted s @ [Offline, Offline] \<and>
   calls (connection_onopen r sid (transport_opened (connection_onclose unreachable s))) = calls s \<and>
   pendingPublicationItems (connection_onclose unreachable s) = [] \<and>
   issuedSubscriptionItems (connection_onclose unreachable s) = []"
  by (simp add: onopen_try_def connection_onopen_def transport_opened_def reset_def
      resetSession_def emit_def connection_onclose_def)

lemma onopen_try_steps:
  assumes "connection s = Some c"
    and "addSessionTestaments r
           (emit Online (s\<lparr>sessionIdLogItem := ascii ''['' @ number_toString sid @ ascii ''] ''\<rparr>)) =
         Done s2"
    and "subscribeItems r (issuedSubscriptionItems s2) s2 = Done s3"
    and "joinOptions s3 = Some jo"
    and "addJoinEvents (joinEvents jo) (length (joinEvents jo)) s3 = Done s4"
    and "drainPublications r s4 = Done s5"
  shows "onopen_try r sid s = Done s5"
  using assms by (simp add: onopen_try_def Let_def and_then_def)


section \<open>Claims about the publication queue\<close>

text \<open>
  Claim C5. When the acknowledgement of a queued item fails during a drain, after the items
  before it were sent with success, the failed item and every item behind it are still in
  the queue, in their order, and publishing is marked as deferred.
\<close>

theorem drain_failure_retains:
  assumes "connection_isOpen s"
    and "pendingPublicationItems s = pre @ item # rest"
    and "\<forall>k<length pre. r (calls s @ map publish_call (take k pre)) (publish_call (pre ! k))
            \<in> {NoPromise, Resolves}"
    and "r (calls s @ map publish_call pre) (publish_call item) = Rejects"
  shows "\<exists>s'. doDrainPublications r s = Done s' \<and>
             (isPublishingDeferred s \<longrightarrow> drainPublications r s = Done s') \<and>
             pendingPublicationItems s' = item # rest \<and>
             isPublishingDeferred s' \<and>
             calls s' = calls s @ map publish_call pre @ [publish_call item]"
proof -
  let ?mid = "\<lambda>s. s\<lparr>calls := calls s @ map publish_call pre, pendingPublicationItems := item # rest\<rparr>"
  let ?fin = "\<lambda>s. (?mid s)\<lparr>calls := calls (?mid s) @ [publish_call item], isPublishingDeferred := True\<rparr>"
  have run: "doDrainPublications r u = Done (?fin u)"
    if u: "connection_isOpen u" "pendingPublicationItems u = pre @ item # rest" "calls u = calls s" for u
  proof -
    have "doDrainPublications r (?mid u) = Done (?fin u)"
      by (rule drain_reject) (use u assms(4) in \<open>simp_all add: connection_isOpen_def\<close>)
    then show ?thesis
      by (rule drain_prefix [OF u(1) u(2), rotated]) (use assms(3) u(3) in simp)
  qed
  have 1: "doDrainPublications r s = Done (?fin s)" by (rule run) (use assms in simp_all)
  have 2: "doDrainPublications r (s\<lparr>isPublishingDeferred := False\<rparr>) = Done (?fin (s\<lparr>isPublishingDeferred := False\<rparr>))"
    by (rule run) (use assms in \<open>simp_all add: connection_isOpen_def\<close>)
  have 3: "?fin (s\<lparr>isPublishingDeferred := False\<rparr>) = ?fin s" by simp
  show ?thesis
    using 1 2 3 by (simp add: drainPublications_def)
qed

theorem drain_failure_retains_witness:
  "\<exists>s'. drainPublications (\<lambda>h c. if length h = 2 then Rejects else Resolves)
          ((joined_binding example_options \<lparr> joinEvents = [], unjoinEvent = raw_event ''bye'' (0::nat) \<rparr>)
             \<lparr>pendingPublicationItems :=
                [publicationItem (Some (ascii ''t1'')) (raw_event ''t1'' 1),
                 publicationItem (Some (ascii ''t2'')) (raw_event ''t2'' 2),
                 publicationItem (Some (ascii ''t3'')) (raw_event ''t3'' 3)]\<rparr>) = Done s' \<and>
        pendingPublicationItems s' =
           [publicationItem (Some (ascii ''t2'')) (raw_event ''t2'' 2),
            publicationItem (Some (ascii ''t3'')) (raw_event ''t3'' 3)] \<and>
        isPublishingDeferred s'"
  using drain_failure_retains [where s = "(joined_binding example_options \<lparr> joinEvents = [], unjoinEvent = raw_event ''bye'' (0::nat) \<rparr>)
             \<lparr>pendingPublicationItems :=
                [publicationItem (Some (ascii ''t1'')) (raw_event ''t1'' 1),
                 publicationItem (Some (ascii ''t2'')) (raw_event ''t2'' 2),
                 publicationItem (Some (ascii ''t3'')) (raw_event ''t3'' 3)]\<rparr>"
      and pre = "[publicationItem (Some (ascii ''t1'')) (raw_event ''t1'' 1)]"
      and item = "publicationItem (Some (ascii ''t2'')) (raw_event ''t2'' 2)"
      and rest = "[publicationItem (Some (ascii ''t3'')) (raw_event ''t3'' 3)]"
      and r = "\<lambda>h c. if length h = 2 then Rejects else Resolves"]
  by (auto simp add: connection_isOpen_def)

text \<open>
  Claim C6. Three events enqueued at the back of the queue, one after the other, and then
  drained on an open connection whose every publication succeeds, are sent in the order in
  which they were enqueued, behind what was queued before them, and the queue is empty
  afterwards.
\<close>

theorem drain_in_order:
  assumes "connection_isOpen s" "isPublishingDeferred s"
    and "getTopicFor s T1 = Inr t1" "getTopicFor s T2 = Inr t2" "getTopicFor s T3 = Inr t3"
    and "\<forall>h c. r h c \<in> {NoPromise, Resolves}"
  shows "\<exists>s'. and_then (addPublicationItem T1 False False s)
               (\<lambda>s. and_then (addPublicationItem T2 False False s)
                  (\<lambda>s. and_then (addPublicationItem T3 False False s)
                     (drainPublications r))) = Done s' \<and>
             calls s' = calls s @ map publish_call (pendingPublicationItems s) @
                [publish_call (publicationItem t1 T1), publish_call (publicationItem t2 T2),
                 publish_call (publicationItem t3 T3)] \<and>
             pendingPublicationItems s' = []"
proof -
  let ?q = "pendingPublicationItems s @ [publicationItem t1 T1, publicationItem t2 T2, publicationItem t3 T3]"
  let ?s3 = "s\<lparr>pendingPublicationItems := ?q\<rparr>"
  have enq: "and_then (addPublicationItem T1 False False s)
               (\<lambda>s. and_then (addPublicationItem T2 False False s)
                  (\<lambda>s. and_then (addPublicationItem T3 False False s)
                     (drainPublications r))) = drainPublications r ?s3"
    using assms(3-5) by (simp add: addPublicationItem_back)
  have "drainPublications r ?s3 =
     Done (?s3\<lparr>calls := calls ?s3 @ map publish_call (pendingPublicationItems ?s3),
             pendingPublicationItems := []\<rparr>)"
    by (rule drain_all) (use assms in \<open>simp_all add: connection_isOpen_def\<close>)
  with enq show ?thesis by simp
qed

theorem drain_in_order_witness:
  "\<exists>s'. and_then (addPublicationItem (raw_event ''t1'' (1::nat)) False False
                    (joined_binding example_options \<lparr> joinEvents = [], unjoinEvent = raw_event ''bye'' 0 \<rparr>))
               (\<lambda>s. and_then (addPublicationItem (raw_event ''t2'' 2) False False s)
                  (\<lambda>s. and_then (addPublicationItem (raw_event ''t3'' 3) False False s)
                     (drainPublications (\<lambda>h c. NoPromise)))) = Done s' \<and>
        calls s' = [ConnectionOpen,
                    Publish (Some (ascii ''t1'')) [1] EmptyObject False False,
                    Publish (Some (ascii ''t2'')) [2] EmptyObject False False,
                    Publish (Some (ascii ''t3'')) [3] EmptyObject False False] \<and>
        pendingPublicationItems s' = []"
proof -
  have fields: "publish_call (publicationItem t (raw_event n (d::nat))) = Publish t [d] EmptyObject False False"
    for t n d
    by (simp add: publish_call_def publicationItem_def raw_event_def isKwargsPayloadOf_def
        option_flag_def)
  show ?thesis
    using drain_in_order [where s = "joined_binding example_options \<lparr> joinEvents = [], unjoinEvent = raw_event ''bye'' (0::nat) \<rparr>"
      and ?T1.0 = "raw_event ''t1'' 1" and ?T2.0 = "raw_event ''t2'' 2" and ?T3.0 = "raw_event ''t3'' 3"
      and ?t1.0 = "Some (ascii ''t1'')" and ?t2.0 = "Some (ascii ''t2'')" and ?t3.0 = "Some (ascii ''t3'')"
      and r = "\<lambda>h c. NoPromise"]
    by (simp add: fields)
qed

text \<open>
  Claim C7. After the loop of \<open>onopen\<close> over the join events A, B, C, the queue should
  hold A, B, C in that order ahead of every item that was queued before. The code does not
  do so at this input: the queue holds a Raw publication (payload 10) and behind it an
  Advertise publication (payload 11) on the topic of the join event A, and the join events
  carry the payloads 1, 2, 3. The loop puts C and then B at the front and skips A, because
  an item with its topic is queued: the queue is 2, 3, 10, 11, and \<open>onopen\<close> publishes it
  in that order, so that A is not published and the item on its topic is sent behind the
  Raw publication.
\<close>

theorem join_events_skipped_behind_backlog:
  "map pub_payload (pendingPublicationItems (state_of
      (addJoinEvents
         [advertise_event ''Identity'' ''src1'' (1::nat),
          advertise_event ''Device'' ''src1'' 2,
          advertise_event ''User'' ''src1'' 3] 3
         ((joined_binding example_options
             \<lparr> joinEvents = [advertise_event ''Identity'' ''src1'' (1::nat),
                              advertise_event ''Device'' ''src1'' 2,
                              advertise_event ''User'' ''src1'' 3],
               unjoinEvent = raw_event ''bye'' 0 \<rparr>)
            \<lparr>pendingPublicationItems :=
               [publicationItem (Some (ascii ''x'')) (raw_event ''x'' 10),
                publicationItem (Some (ascii ''coaty.1.ns.ADVIdentity.src1''))
                  (advertise_event ''Identity'' ''src1'' 11)]\<rparr>)))) =
   [2, 3, 10, 11] \<and>
   calls (connection_onopen always_resolves 7
         ((joined_binding example_options
             \<lparr> joinEvents = [advertise_event ''Identity'' ''src1'' (1::nat),
                              advertise_event ''Device'' ''src1'' 2,
                              advertise_event ''User'' ''src1'' 3],
               unjoinEvent = raw_event ''bye'' 0 \<rparr>)
            \<lparr>pendingPublicationItems :=
               [publicationItem (Some (ascii ''x'')) (raw_event ''x'' 10),
                publicationItem (Some (ascii ''coaty.1.ns.ADVIdentity.src1''))
                  (advertise_event ''Identity'' ''src1'' 11)]\<rparr>)) =
   [ConnectionOpen,
    AddTestament (Some (ascii ''bye'')) 0 destroyed,
    AddTestament (Some (ascii ''bye'')) 0 detached,
    Publish (Some (ascii ''coaty.1.ns.ADVDevice.src1'')) [] (Kwargs 2) False False,
    Publish (Some (ascii ''coaty.1.ns.ADVUser.src1'')) [] (Kwargs 3) False False,
    Publish (Some (ascii ''x'')) [10] EmptyObject False False,
    Publish (Some (ascii ''coaty.1.ns.ADVIdentity.src1'')) [] (Kwargs 11) False False]"
proof -
  let ?A = "advertise_event ''Identity'' ''src1'' (1::nat)"
  let ?B = "advertise_event ''Device'' ''src1'' (2::nat)"
  let ?C = "advertise_event ''User'' ''src1'' (3::nat)"
  let ?jo = "\<lparr> joinEvents = [?A, ?B, ?C], unjoinEvent = raw_event ''bye'' 0 \<rparr>"
  let ?q = "[publicationItem (Some (ascii ''x'')) (raw_event ''x'' (10::nat)),
             publicationItem (Some (ascii ''coaty.1.ns.ADVIdentity.src1''))
               (advertise_event ''Identity'' ''src1'' 11)]"
  let ?s = "(joined_binding example_options ?jo)\<lparr>pendingPublicationItems := ?q\<rparr>"
  let ?q' = "publicationItem (Some (ascii ''coaty.1.ns.ADVDevice.src1'')) ?B #
             publicationItem (Some (ascii ''coaty.1.ns.ADVUser.src1'')) ?C # ?q"
  have loop: "addJoinEvents [?A, ?B, ?C] 3 u = Done (u\<lparr>pendingPublicationItems := ?q'\<rparr>)"
    if "opt_namespace (options u) = Some (ascii ''ns'')" "pendingPublicationItems u = ?q" for u
    using that
    by (simp add: numeral_3_eq_3 addPublicationItem_def getTopicFor_advertise ascii_def)
  have 1: "map pub_payload (pendingPublicationItems (state_of (addJoinEvents [?A, ?B, ?C] 3 ?s))) =
      [2, 3, 10, 11]"
    by (subst loop) simp_all
  let ?T = "[AddTestament (Some (ascii ''bye'')) (0::nat) destroyed,
             AddTestament (Some (ascii ''bye'')) 0 detached]"
  let ?s1 = "emit Online (?s\<lparr>sessionIdLogItem := ascii ''['' @ number_toString 7 @ ascii ''] ''\<rparr>)"
  let ?s2 = "?s1\<lparr>calls := [ConnectionOpen] @ ?T\<rparr>"
  let ?s3 = "?s2\<lparr>pendingPublicationItems := ?q'\<rparr>"
  have t: "addSessionTestaments always_resolves ?s1 = Done ?s2"
    by (simp add: addSessionTestaments_def Let_def session_call_def always_resolves_def emit_def)
  have j: "addJoinEvents [?A, ?B, ?C] 3 ?s2 = Done ?s3"
    by (rule loop) (simp_all add: emit_def)
  have d: "drainPublications always_resolves ?s3 =
      Done (?s3\<lparr>calls := calls ?s3 @ map publish_call (pendingPublicationItems ?s3),
               pendingPublicationItems := []\<rparr>)"
    by (rule drain_all) (simp_all add: emit_def connection_isOpen_def always_resolves_def)
  have je: "joinEvents ?jo = [?A, ?B, ?C]" "length [?A, ?B, ?C] = 3"
    by simp_all
  have jo: "joinOptions ?s2 = Some ?jo"
    by (simp add: emit_def)
  have sb: "subscribeItems always_resolves (issuedSubscriptionItems ?s2) ?s2 = Done ?s2"
    by (simp add: emit_def)
  have "onopen_try always_resolves 7 ?s =
      Done (?s3\<lparr>calls := calls ?s3 @ map publish_call (pendingPublicationItems ?s3),
               pendingPublicationItems := []\<rparr>)"
  proof (rule onopen_try_steps [OF _ t sb jo _ d])
    show "connection ?s = Some \<lparr>isConnected = True, isOpen = True\<rparr>"
      by simp
    show "addJoinEvents (joinEvents ?jo) (length (joinEvents ?jo)) ?s2 = Done ?s3"
      unfolding je by (rule j)
  qed
  then have 2: "calls (connection_onopen always_resolves 7 ?s) =
      [ConnectionOpen] @ ?T @ map publish_call ?q'"
    by (simp add: connection_onopen_def emit_def)
  have p: "map publish_call ?q' =
     [Publish (Some (ascii ''coaty.1.ns.ADVDevice.src1'')) [] (Kwargs 2) False False,
      Publish (Some (ascii ''coaty.1.ns.ADVUser.src1'')) [] (Kwargs 3) False False,
      Publish (Some (ascii ''x'')) [10] EmptyObject False False,
      Publish (Some (ascii ''coaty.1.ns.ADVIdentity.src1'')) [] (Kwargs 11) False False]"
    by (simp add: publish_call_def publicationItem_def advertise_event_def raw_event_def
        isKwargsPayloadOf_def option_flag_def)
  from 1 2 show ?thesis unfolding p by simp
qed

section \<open>Claims about the subscription registry\<close>

text \<open>
  Claim C8. When no two items of the registry have the same key (event type, topic pattern,
  match mode), this is still so after \<open>_addSubscriptionItem\<close> and after
  \<open>_removeSubscriptionItem\<close>, whether the method returns or raises. After an add the
  registry holds one item with the key of the event, the item built for the event; after a
  second add with the same key it holds the item of the second event alone. When the item
  replaced has a live handle and the connection exists, the add issues the subscription of
  the new item first and then the \<open>unsubscribe\<close> of that handle.
\<close>

theorem registry_one_item_per_key:
  assumes "distinct (map sub_key (issuedSubscriptionItems s))"
  shows "distinct (map sub_key (issuedSubscriptionItems (state_of (addSubscriptionItem r e s)))) \<and>
         distinct (map sub_key (issuedSubscriptionItems (state_of (removeSubscriptionItem r e s)))) \<and>
         filter (\<lambda>i. sub_key i = sub_key (subscriptionItem s e))
           (issuedSubscriptionItems (state_of (addSubscriptionItem r e s))) = [subscriptionItem s e] \<and>
         (sub_key (subscriptionItem s e2) = sub_key (subscriptionItem s e) \<longrightarrow>
            filter (\<lambda>i. sub_key i = sub_key (subscriptionItem s e))
              (issuedSubscriptionItems
                 (state_of (addSubscriptionItem r2 e2 (state_of (addSubscriptionItem r e s))))) =
              [subscriptionItem s e2]) \<and>
         (findIndex (\<lambda>i. sub_key i = sub_key (subscriptionItem s e)) (issuedSubscriptionItems s) = Some i \<and>
          sub_subscription (issuedSubscriptionItems s ! i) = Some h \<and>
          connection s = Some c \<and> (\<forall>hist call. r hist call \<noteq> Throws) \<longrightarrow>
            addSubscriptionItem r e s =
              Done (s\<lparr>issuedSubscriptionItems := (issuedSubscriptionItems s)[i := subscriptionItem s e],
                      calls := calls s @
                        (if isOpen c
                         then [subscribe_call (subscriptionItem s e)]
                         else []) @
                        [Unsubscribe h]\<rparr>))"
proof -
  let ?s1 = "state_of (addSubscriptionItem r e s)"
  have d1: "distinct (map sub_key (issuedSubscriptionItems ?s1))"
    using assms by (simp add: addSubscriptionItem_issued add_keeps_distinct)
  have d2: "distinct (map sub_key (issuedSubscriptionItems (state_of (removeSubscriptionItem r e s))))"
    using assms
    by (cases "findIndex (\<lambda>i. sub_key i = sub_key (subscriptionItem s e)) (issuedSubscriptionItems s)")
      (simp_all add: removeSubscriptionItem_issued remove_keeps_distinct del: distinct_append map_append)
  have m1: "subscriptionItem s e \<in> set (issuedSubscriptionItems ?s1)"
    by (simp add: addSubscriptionItem_issued add_member)
  have f1: "filter (\<lambda>i. sub_key i = sub_key (subscriptionItem s e)) (issuedSubscriptionItems ?s1) =
      [subscriptionItem s e]"
    using d1 m1 by (rule filter_key_distinct)
  have f2: "filter (\<lambda>i. sub_key i = sub_key (subscriptionItem s e))
              (issuedSubscriptionItems (state_of (addSubscriptionItem r2 e2 ?s1))) =
              [subscriptionItem s e2]"
    if k: "sub_key (subscriptionItem s e2) = sub_key (subscriptionItem s e)"
  proof -
    have it: "subscriptionItem ?s1 e2 = subscriptionItem s e2"
      by (rule subscriptionItem_options) simp
    have d: "distinct (map sub_key (issuedSubscriptionItems (state_of (addSubscriptionItem r2 e2 ?s1))))"
      by (subst addSubscriptionItem_issued) (rule add_keeps_distinct [OF d1])
    have m: "subscriptionItem s e2 \<in> set (issuedSubscriptionItems (state_of (addSubscriptionItem r2 e2 ?s1)))"
      by (subst addSubscriptionItem_issued, simp only: it) (rule add_member)
    from filter_key_distinct [OF d m] k show ?thesis by simp
  qed
  show ?thesis
    using d1 d2 f1 f2 addSubscriptionItem_replace [of s e i h c r] by blast
qed

theorem registry_one_item_per_key_witness:
  "addSubscriptionItem (\<lambda>h c. Resolves) (raw_event ''t'' (1::nat))
     ((joined_binding example_options \<lparr> joinEvents = [], unjoinEvent = raw_event ''bye'' 0 \<rparr>)
        \<lparr>issuedSubscriptionItems :=
           [\<lparr> sub_eventType = Raw, sub_topic = Some (ascii ''t''), sub_match = ascii ''exact'',
              sub_isKwargsPayload = False, sub_subscription = Some 5 \<rparr>]\<rparr>) =
   Done ((joined_binding example_options \<lparr> joinEvents = [], unjoinEvent = raw_event ''bye'' 0 \<rparr>)
        \<lparr>issuedSubscriptionItems :=
           [\<lparr> sub_eventType = Raw, sub_topic = Some (ascii ''t''), sub_match = ascii ''exact'',
              sub_isKwargsPayload = False, sub_subscription = None \<rparr>],
         calls := [ConnectionOpen, Subscribe (Some (ascii ''t'')) (ascii ''exact''), Unsubscribe 5]\<rparr>) \<and>
   filter (\<lambda>i. sub_key i = (Raw, Some (ascii ''t''), ascii ''exact''))
     (issuedSubscriptionItems (state_of
        (addSubscriptionItem (\<lambda>h c. Resolves) ((raw_event ''t'' 2)\<lparr>ev_isDataRaw := False\<rparr>)
           (state_of (addSubscriptionItem (\<lambda>h c. Resolves) (raw_event ''t'' (1::nat))
     ((joined_binding example_options \<lparr> joinEvents = [], unjoinEvent = raw_event ''bye'' 0 \<rparr>)
        \<lparr>issuedSubscriptionItems :=
           [\<lparr> sub_eventType = Raw, sub_topic = Some (ascii ''t''), sub_match = ascii ''exact'',
              sub_isKwargsPayload = False, sub_subscription = Some 5 \<rparr>]\<rparr>)))))) =
     [\<lparr> sub_eventType = Raw, sub_topic = Some (ascii ''t''), sub_match = ascii ''exact'',
        sub_isKwargsPayload = True, sub_subscription = None \<rparr>]"
proof -
  let ?s = "(joined_binding example_options \<lparr> joinEvents = [], unjoinEvent = raw_event ''bye'' 0 \<rparr>)
        \<lparr>issuedSubscriptionItems :=
           [\<lparr> sub_eventType = Raw, sub_topic = Some (ascii ''t''), sub_match = ascii ''exact'',
              sub_isKwargsPayload = False, sub_subscription = Some 5 \<rparr>]\<rparr>"
  let ?r = "\<lambda>(h :: nat transport_call list) (c :: nat transport_call). Resolves"
  let ?e1 = "raw_event ''t'' (1::nat)"
  let ?e2 = "(raw_event ''t'' (2::nat))\<lparr>ev_isDataRaw := False\<rparr>"
  have k2: "subscriptionItem ?s ?e2 =
      \<lparr> sub_eventType = Raw, sub_topic = Some (ascii ''t''), sub_match = ascii ''exact'',
        sub_isKwargsPayload = True, sub_subscription = None \<rparr>"
    by (simp add: subscriptionItem_def getTopicFilterFor_def raw_event_def isKwargsPayloadOf_def)
  have k1: "subscriptionItem ?s ?e1 =
      \<lparr> sub_eventType = Raw, sub_topic = Some (ascii ''t''), sub_match = ascii ''exact'',
        sub_isKwargsPayload = False, sub_subscription = None \<rparr>"
    by (rule subscriptionItem_raw)
  have key: "sub_key (subscriptionItem ?s ?e1) = (Raw, Some (ascii ''t''), ascii ''exact'')"
      "sub_key (subscriptionItem ?s ?e2) = (Raw, Some (ascii ''t''), ascii ''exact'')"
    by (simp_all add: subscriptionItem_raw k2 sub_key_def)
  have inv: "distinct (map sub_key (issuedSubscriptionItems ?s))" by simp
  have idx: "findIndex (\<lambda>i. sub_key i = sub_key (subscriptionItem ?s ?e1)) (issuedSubscriptionItems ?s) = Some 0"
    by (simp add: sub_key_def subscriptionItem_raw)
  note T = registry_one_item_per_key [OF inv, where r = ?r and e = ?e1 and i = 0 and h = 5
      and c = "\<lparr> isConnected = True, isOpen = True \<rparr>" and ?e2.0 = ?e2 and ?r2.0 = ?r]
  from T key have twice: "filter (\<lambda>i. sub_key i = (Raw, Some (ascii ''t''), ascii ''exact''))
     (issuedSubscriptionItems (state_of (addSubscriptionItem ?r ?e2
           (state_of (addSubscriptionItem ?r ?e1 ?s))))) = [subscriptionItem ?s ?e2]"
    by simp
  from T idx have "addSubscriptionItem ?r ?e1 ?s =
     Done (?s\<lparr>issuedSubscriptionItems := (issuedSubscriptionItems ?s)[0 := subscriptionItem ?s ?e1],
             calls := calls ?s @ [subscribe_call (subscriptionItem ?s ?e1)] @ [Unsubscribe 5]\<rparr>)"
    by simp
  then have first: "addSubscriptionItem ?r ?e1 ?s =
     Done ((joined_binding example_options \<lparr> joinEvents = [], unjoinEvent = raw_event ''bye'' 0 \<rparr>)
        \<lparr>issuedSubscriptionItems :=
           [\<lparr> sub_eventType = Raw, sub_topic = Some (ascii ''t''), sub_match = ascii ''exact'',
              sub_isKwargsPayload = False, sub_subscription = None \<rparr>],
         calls := [ConnectionOpen, Subscribe (Some (ascii ''t'')) (ascii ''exact''), Unsubscribe 5]\<rparr>)"
    by (simp add: subscriptionItem_raw subscribe_call_def)
  from first twice show ?thesis by (simp only: k2)
qed

section \<open>Claims about the session lifecycle\<close>

text \<open>
  Claim C9, as the code has it. The notifications are counted per call of a handler, not
  per change of the state. Each call of the handler \<open>onclose\<close> emits one Offline
  notification, whatever the reason and whatever the state before. Each call of the handler
  \<open>onopen\<close> emits one Online notification when its body completes (a successful join);
  when its body raises, it emits the Online notification at most once (not at all when the
  field \<open>_connection\<close> is undefined, which raises before the notification) and then the
  one Offline notification of the reset. The binding keeps no record of the state it has
  reported: closes reported one after another, as the transport does when a retry fails,
  emit one Offline notification each.
\<close>

theorem one_notification_per_handler_call:
  "emitted (connection_onclose reason s) = emitted s @ [Offline] \<and>
   emitted (connection_onopen r sid s) =
     emitted s @ (if connection s = None then [] else [Online]) @
     (case onopen_try r sid s of Done s' \<Rightarrow> [] | Thrown e s' \<Rightarrow> [Offline]) \<and>
   (onopen_try r sid s = Done s1 \<longrightarrow> emitted (connection_onopen r sid s) = emitted s @ [Online]) \<and>
   emitted (fold connection_onclose reasons s) = emitted s @ replicate (length reasons) Offline"
proof -
  have "emitted (connection_onopen r sid s) = emitted s @ [Online]"
    if d: "onopen_try r sid s = Done s1"
  proof -
    from d onopen_try_no_connection [of s r sid] have "connection s \<noteq> None" by auto
    with d connection_onopen_emitted [of r sid s] show ?thesis by simp
  qed
  moreover have "emitted (fold connection_onclose reasons s) =
      emitted s @ replicate (length reasons) Offline"
  proof (induction reasons arbitrary: s)
    case Nil
    show ?case by simp
  next
    case (Cons a reasons)
    show ?case
      by (simp add: Cons.IH connection_onclose_emitted replicate_append_same)
  qed
  ultimately show ?thesis
    using connection_onclose_emitted [of reason s] connection_onopen_emitted [of r sid s]
    by blast
qed

theorem one_notification_per_handler_call_witness:
  "emitted (connection_onopen always_resolves 7
      (joined_binding example_options
         \<lparr> joinEvents = [raw_event ''hello'' (1::nat)], unjoinEvent = raw_event ''bye'' 0 \<rparr>)) =
     [Offline, Online] \<and>
   emitted (connection_onclose lost
      (connection_onopen always_resolves 7
         (joined_binding example_options
            \<lparr> joinEvents = [raw_event ''hello'' (1::nat)], unjoinEvent = raw_event ''bye'' 0 \<rparr>))) =
     [Offline, Online, Offline]"
proof -
  let ?jo = "\<lparr> joinEvents = [raw_event ''hello'' (1::nat)], unjoinEvent = raw_event ''bye'' 0 \<rparr>"
  let ?s = "joined_binding example_options ?jo"
  let ?r = "always_resolves :: nat router"
  have d: "onopen_try ?r 7 ?s = Done (connection_onopen ?r 7 ?s)"
    using onopen_replay [where s = ?s and r = ?r and sid = 7 and jo = ?jo
        and c = "\<lparr> isConnected = True, isOpen = True \<rparr>" and ut = "Some (ascii ''bye'')"]
    by (simp add: always_resolves_def)
  from one_notification_per_handler_call [where s = ?s and r = ?r and sid = 7
      and ?s1.0 = "connection_onopen ?r 7 ?s"] d
  have 1: "emitted (connection_onopen ?r 7 ?s) = [Offline, Online]" by simp
  from one_notification_per_handler_call [where s = "connection_onopen ?r 7 ?s" and reason = lost] 1
  show ?thesis by simp
qed

text \<open>
  The claim does not hold across the retries of one lost connection. The binding joins and
  its session opens (Online); the connection is lost (Offline); the retry of the transport
  fails and the transport reports the close again: a second Offline notification follows
  the first, with no Online between them.
\<close>

theorem repeated_close_counterexample:
  "emitted (connection_onclose lost (connection_onclose lost
      (connection_onopen always_resolves 7
         (joined_binding example_options
            \<lparr> joinEvents = [raw_event ''hello'' (1::nat)], unjoinEvent = raw_event ''bye'' 0 \<rparr>)))) =
     [Offline, Online, Offline, Offline]"
proof -
  let ?jo = "\<lparr> joinEvents = [raw_event ''hello'' (1::nat)], unjoinEvent = raw_event ''bye'' 0 \<rparr>"
  let ?s = "joined_binding example_options ?jo"
  let ?r = "always_resolves :: nat router"
  have "onopen_try ?r 7 ?s = Done (connection_onopen ?r 7 ?s)"
    using onopen_replay [where s = ?s and r = ?r and sid = 7 and jo = ?jo
        and c = "\<lparr> isConnected = True, isOpen = True \<rparr>" and ut = "Some (ascii ''bye'')"]
    by (simp add: always_resolves_def)
  with connection_onopen_emitted [of ?r 7 ?s]
  have "emitted (connection_onopen ?r 7 ?s) = [Offline, Online]"
    by simp
  then show ?thesis
    by (simp add: connection_onclose_emitted)
qed

text \<open>
  Claim C1, as the code has it. A close reported as \<open>lost\<close> leaves the publication queue
  as it is and keeps every item of the subscription registry, with the live handle cleared,
  and emits Offline; the connection and the join options stay. When the transport opens a
  session again, publishing is armed and nothing raises or is rejected, \<open>onopen\<close>
  registers the two testaments, subscribes every item of the registry once, in order, and
  publishes the join events that are not queued followed by the whole queue, which is empty
  afterwards. A close reported as \<open>unsupported\<close> goes through the full reset instead: the
  queue and the registry are emptied.
\<close>

theorem lost_retains_queue_and_registry:
  "pendingPublicationItems (connection_onclose lost s) = pendingPublicationItems s \<and>
   issuedSubscriptionItems (connection_onclose lost s) =
     map (\<lambda>i. i\<lparr>sub_subscription := None\<rparr>) (issuedSubscriptionItems s) \<and>
   joinOptions (connection_onclose lost s) = joinOptions s \<and>
   connection (connection_onclose lost s) = connection s \<and>
   emitted (connection_onclose lost s) = emitted s @ [Offline] \<and>
   pendingPublicationItems (connection_onclose unsupported s) = [] \<and>
   issuedSubscriptionItems (connection_onclose unsupported s) = [] \<and>
   emitted (connection_onclose unsupported s) = emitted s @ [Offline] \<and>
   (connection s \<noteq> None \<and> joinOptions s = Some jo \<and>
    getTopicFor s (unjoinEvent jo) = Inr ut \<and>
    (\<forall>e\<in>set (joinEvents jo). \<exists>t. getTopicFor s e = Inr t) \<and>
    isPublishingDeferred s \<and> (\<forall>h c. r h c \<in> {NoPromise, Resolves}) \<longrightarrow>
      (\<exists>js. calls (connection_onopen r sid (transport_opened (connection_onclose lost s))) =
              calls s @
              [AddTestament ut (ev_data (unjoinEvent jo)) destroyed,
               AddTestament ut (ev_data (unjoinEvent jo)) detached] @
              map subscribe_call (issuedSubscriptionItems s) @
              map publish_call js @ map publish_call (pendingPublicationItems s) \<and>
            pendingPublicationItems
              (connection_onopen r sid (transport_opened (connection_onclose lost s))) = []))"
proof -
  have replay: "\<exists>js. calls (connection_onopen r sid (transport_opened (connection_onclose lost s))) =
              calls s @
              [AddTestament ut (ev_data (unjoinEvent jo)) destroyed,
               AddTestament ut (ev_data (unjoinEvent jo)) detached] @
              map subscribe_call (issuedSubscriptionItems s) @
              map publish_call js @ map publish_call (pendingPublicationItems s) \<and>
            pendingPublicationItems
              (connection_onopen r sid (transport_opened (connection_onclose lost s))) = []"
    if h: "connection s \<noteq> None \<and> joinOptions s = Some jo \<and>
      getTopicFor s (unjoinEvent jo) = Inr ut \<and>
      (\<forall>e\<in>set (joinEvents jo). \<exists>t. getTopicFor s e = Inr t) \<and>
      isPublishingDeferred s \<and> (\<forall>h c. r h c \<in> {NoPromise, Resolves})"
  proof -
    let ?s1 = "transport_opened (connection_onclose lost s)"
    from h obtain c where c: "connection s = Some c" by auto
    have c1: "connection ?s1 = Some (c\<lparr>isConnected := True, isOpen := True\<rparr>)"
      using c by (simp add: transport_opened_def onclose_lost_fields)
    have g: "getTopicFor ?s1 e = getTopicFor s e" for e
      by (rule getTopicFor_options) (simp add: transport_opened_def onclose_lost_fields)
    have f: "joinOptions ?s1 = Some jo" "isPublishingDeferred ?s1"
        "pendingPublicationItems ?s1 = pendingPublicationItems s"
        "issuedSubscriptionItems ?s1 = map (\<lambda>i. i\<lparr>sub_subscription := None\<rparr>) (issuedSubscriptionItems s)"
        "calls ?s1 = calls s"
      using h by (simp_all add: transport_opened_def onclose_lost_fields)
    from onopen_replay [of ?s1 _ jo ut r sid, OF c1 _ f(1) _ _ f(2)] h
    obtain js where "connection_onopen r sid ?s1 =
       ?s1\<lparr>sessionIdLogItem := ascii ''['' @ number_toString sid @ ascii ''] '',
         emitted := emitted ?s1 @ [Online],
         calls := calls ?s1 @
           [AddTestament ut (ev_data (unjoinEvent jo)) destroyed,
            AddTestament ut (ev_data (unjoinEvent jo)) detached] @
           map subscribe_call (issuedSubscriptionItems ?s1) @
           map publish_call js @ map publish_call (pendingPublicationItems ?s1),
         pendingPublicationItems := []\<rparr>"
      by (auto simp: g)
    then have "calls (connection_onopen r sid ?s1) =
              calls s @
              [AddTestament ut (ev_data (unjoinEvent jo)) destroyed,
               AddTestament ut (ev_data (unjoinEvent jo)) detached] @
              map subscribe_call (issuedSubscriptionItems s) @
              map publish_call js @ map publish_call (pendingPublicationItems s)"
        and "pendingPublicationItems (connection_onopen r sid ?s1) = []"
      by (simp_all add: f subscribe_call_def)
    then show ?thesis by blast
  qed
  have reset: "pendingPublicationItems (connection_onclose unsupported s) = [] \<and>
      issuedSubscriptionItems (connection_onclose unsupported s) = [] \<and>
      emitted (connection_onclose unsupported s) = emitted s @ [Offline]"
    using onclose_reset_fields [of unsupported s] connection_onclose_emitted [of unsupported s]
    by simp
  show ?thesis
    using onclose_lost_fields [of s] connection_onclose_emitted [of lost s] replay reset
    by blast
qed

theorem lost_retains_queue_and_registry_witness:
  "issuedSubscriptionItems (connection_onclose unsupported
      ((joined_binding example_options
          \<lparr> joinEvents = [raw_event ''hello'' (1::nat)], unjoinEvent = raw_event ''bye'' 0 \<rparr>)
         \<lparr>pendingPublicationItems := [publicationItem (Some (ascii ''x'')) (raw_event ''x'' 10)],
          issuedSubscriptionItems :=
            [\<lparr> sub_eventType = Raw, sub_topic = Some (ascii ''t''), sub_match = ascii ''exact'',
               sub_isKwargsPayload = False, sub_subscription = Some 5 \<rparr>]\<rparr>)) = [] \<and>
   pendingPublicationItems (connection_onclose lost
      ((joined_binding example_options
          \<lparr> joinEvents = [raw_event ''hello'' (1::nat)], unjoinEvent = raw_event ''bye'' 0 \<rparr>)
         \<lparr>pendingPublicationItems := [publicationItem (Some (ascii ''x'')) (raw_event ''x'' 10)],
          issuedSubscriptionItems :=
            [\<lparr> sub_eventType = Raw, sub_topic = Some (ascii ''t''), sub_match = ascii ''exact'',
               sub_isKwargsPayload = False, sub_subscription = Some 5 \<rparr>]\<rparr>)) = [publicationItem (Some (ascii ''x'')) (raw_event ''x'' 10)] \<and>
   issuedSubscriptionItems (connection_onclose lost
      ((joined_binding example_options
          \<lparr> joinEvents = [raw_event ''hello'' (1::nat)], unjoinEvent = raw_event ''bye'' 0 \<rparr>)
         \<lparr>pendingPublicationItems := [publicationItem (Some (ascii ''x'')) (raw_event ''x'' 10)],
          issuedSubscriptionItems :=
            [\<lparr> sub_eventType = Raw, sub_topic = Some (ascii ''t''), sub_match = ascii ''exact'',
               sub_isKwargsPayload = False, sub_subscription = Some 5 \<rparr>]\<rparr>)) =
     [\<lparr> sub_eventType = Raw, sub_topic = Some (ascii ''t''), sub_match = ascii ''exact'',
        sub_isKwargsPayload = False, sub_subscription = None \<rparr>] \<and>
   (\<exists>js. calls (connection_onopen (\<lambda>h c. Resolves) 7 (transport_opened (connection_onclose lost
      ((joined_binding example_options
          \<lparr> joinEvents = [raw_event ''hello'' (1::nat)], unjoinEvent = raw_event ''bye'' 0 \<rparr>)
         \<lparr>pendingPublicationItems := [publicationItem (Some (ascii ''x'')) (raw_event ''x'' 10)],
          issuedSubscriptionItems :=
            [\<lparr> sub_eventType = Raw, sub_topic = Some (ascii ''t''), sub_match = ascii ''exact'',
               sub_isKwargsPayload = False, sub_subscription = Some 5 \<rparr>]\<rparr>)))) =
        [ConnectionOpen,
         AddTestament (Some (ascii ''bye'')) 0 destroyed,
         AddTestament (Some (ascii ''bye'')) 0 detached,
         Subscribe (Some (ascii ''t'')) (ascii ''exact'')] @
        map publish_call js @
        [Publish (Some (ascii ''x'')) [10] EmptyObject False False] \<and>
      pendingPublicationItems (connection_onopen (\<lambda>h c. Resolves) 7
        (transport_opened (connection_onclose lost
      ((joined_binding example_options
          \<lparr> joinEvents = [raw_event ''hello'' (1::nat)], unjoinEvent = raw_event ''bye'' 0 \<rparr>)
         \<lparr>pendingPublicationItems := [publicationItem (Some (ascii ''x'')) (raw_event ''x'' 10)],
          issuedSubscriptionItems :=
            [\<lparr> sub_eventType = Raw, sub_topic = Some (ascii ''t''), sub_match = ascii ''exact'',
               sub_isKwargsPayload = False, sub_subscription = Some 5 \<rparr>]\<rparr>)))) = [])"
  using lost_retains_queue_and_registry [where s = "((joined_binding example_options
          \<lparr> joinEvents = [raw_event ''hello'' (1::nat)], unjoinEvent = raw_event ''bye'' 0 \<rparr>)
         \<lparr>pendingPublicationItems := [publicationItem (Some (ascii ''x'')) (raw_event ''x'' 10)],
          issuedSubscriptionItems :=
            [\<lparr> sub_eventType = Raw, sub_topic = Some (ascii ''t''), sub_match = ascii ''exact'',
               sub_isKwargsPayload = False, sub_subscription = Some 5 \<rparr>]\<rparr>)"
      and jo = "\<lparr> joinEvents = [raw_event ''hello'' (1::nat)], unjoinEvent = raw_event ''bye'' 0 \<rparr>"
      and ut = "Some (ascii ''bye'')" and r = "\<lambda>h c. Resolves" and sid = 7]
  by (simp add: publish_call_raw subscribe_call_def)

text \<open>
  The claim C1 as it is stated, for the reason \<open>unsupported\<close> too, fails: with one
  publication queued and one subscription registered, the handler leaves both collections
  empty for this reason.
\<close>

theorem unsupported_discards_counterexample:
  "pendingPublicationItems (connection_onclose unsupported
      ((joined_binding example_options
          \<lparr> joinEvents = [raw_event ''hello'' (1::nat)], unjoinEvent = raw_event ''bye'' 0 \<rparr>)
         \<lparr>pendingPublicationItems := [publicationItem (Some (ascii ''x'')) (raw_event ''x'' 10)],
          issuedSubscriptionItems :=
            [\<lparr> sub_eventType = Raw, sub_topic = Some (ascii ''t''), sub_match = ascii ''exact'',
               sub_isKwargsPayload = False, sub_subscription = Some 5 \<rparr>]\<rparr>)) = [] \<and>
   issuedSubscriptionItems (connection_onclose unsupported
      ((joined_binding example_options
          \<lparr> joinEvents = [raw_event ''hello'' (1::nat)], unjoinEvent = raw_event ''bye'' 0 \<rparr>)
         \<lparr>pendingPublicationItems := [publicationItem (Some (ascii ''x'')) (raw_event ''x'' 10)],
          issuedSubscriptionItems :=
            [\<lparr> sub_eventType = Raw, sub_topic = Some (ascii ''t''), sub_match = ascii ''exact'',
               sub_isKwargsPayload = False, sub_subscription = Some 5 \<rparr>]\<rparr>)) = []"
  by (simp add: onclose_reset_fields)

end
